theory Spec2Isabelle
  imports Complex_Main
begin

section \<open>Data model\<close>

text \<open>
  The recognition service answers with an ordered sequence of results; each result holds a
  list of alternatives, and an alternative holds a transcript string, a confidence and a
  (possibly empty) list of words, each word with the integer tag of its speaker.
\<close>

record word_info =
  word :: string
  speaker_tag :: int

record alternative =
  transcript :: string
  confidence :: real
  words :: "word_info list"

record result =
  alternatives :: "alternative list"

text \<open>The upload notification: \<open>data['bucket']\<close>, \<open>data['name']\<close>, \<open>data['contentType']\<close>.\<close>

record cloud_event =
  bucket :: string
  name :: string
  contentType :: string

text \<open>Logging levels, with the numbers of Python's \<open>logging\<close> module.\<close>

datatype level = INFO | WARNING | ERROR

fun level_no :: "level \<Rightarrow> nat" where
  "level_no INFO = 20"
| "level_no WARNING = 30"
| "level_no ERROR = 40"

text \<open>
  Exceptions are values. \<open>ServiceError\<close> stands for whatever an external collaborator
  (storage, transcoder, recognition, LLM) raises.
\<close>

datatype exn =
    ValueError string
  | IndexError
  | CalledProcessError
  | AttributeError
  | FileNotFoundError
  | IsADirectoryError
  | ServiceError string

text \<open>
  Everything a run does to the outside is recorded in a trace. A log record keeps its level
  and the constant part of its message; the other events are the calls to collaborators
  and the removal of a local file.
\<close>

datatype event =
    Log level string
  | Download string string string
  | Ffmpeg "string list"
  | UploadFile string string string
  | Recognize string
  | UploadString string string string
  | Generate string string string
  | Remove string

section \<open>Strings\<close>

text \<open>Python's \<open>str\<close> of an integer, as the f-string \<open>{speaker_tag}\<close> renders it.\<close>

fun str_nat :: "nat \<Rightarrow> string" where
  "str_nat n =
     (if n < 10 then [''0123456789'' ! n]
      else str_nat (n div 10) @ [''0123456789'' ! (n mod 10)])"

declare str_nat.simps [simp del]

definition str_int :: "int \<Rightarrow> string" where
  "str_int i = (if i < 0 then ''-'' @ str_nat (nat (- i)) else str_nat (nat i))"

text \<open>Python's \<open>sep.join(xs)\<close>.\<close>

fun join :: "string \<Rightarrow> string list \<Rightarrow> string" where
  "join sep [] = []"
| "join sep [x] = x"
| "join sep (x # y # ys) = x @ sep @ join sep (y # ys)"

text \<open>Python's \<open>s.startswith(p)\<close>.\<close>

definition startswith :: "string \<Rightarrow> string \<Rightarrow> bool" where
  "startswith s p \<longleftrightarrow> take (length p) s = p"

section \<open>Transcript reconstruction (lines 121 to 156 of main.py)\<close>

text \<open>
  \<open>speaker_transcripts\<close> is a Python dict from tag to word list; it is modelled as an
  association list in insertion order. A tag not yet present gets an empty list first,
  then the word is appended to the list stored under the tag.
\<close>

type_synonym speaker_dict = "(int \<times> string list) list"

definition add_word :: "word_info \<Rightarrow> speaker_dict \<Rightarrow> speaker_dict" where
  "add_word w d =
     (let d' = (if speaker_tag w \<notin> set (map fst d) then d @ [(speaker_tag w, [])] else d)
      in map (\<lambda>(k, ws). if k = speaker_tag w then (k, ws @ [word w]) else (k, ws)) d')"

text \<open>The inner loop \<open>for word_info in result.alternatives[0].words\<close>.\<close>

fun scan_words :: "word_info list \<Rightarrow> speaker_dict \<Rightarrow> speaker_dict" where
  "scan_words [] d = d"
| "scan_words (w # ws) d = scan_words ws (add_word w d)"

text \<open>
  The outer loop \<open>for i, result in enumerate(response.results)\<close>. The state is the pair
  of \<open>transcript_content\<close> and \<open>speaker_transcripts\<close>; \<open>result.alternatives[0]\<close> raises
  IndexError on a result without alternatives. The log is threaded through.
\<close>

fun scan_results ::
  "result list \<Rightarrow> string \<times> speaker_dict \<Rightarrow> event list
     \<Rightarrow> event list \<times> (exn + string \<times> speaker_dict)" where
  "scan_results [] acc lg = (lg, Inr acc)"
| "scan_results (r # rs) (tc, d) lg =
     (case alternatives r of
        [] \<Rightarrow> (lg, Inl IndexError)
      | a # _ \<Rightarrow>
          (let lg' = lg @ [Log INFO ''Processing Speech-to-Text result''] in
           if words a \<noteq> [] then scan_results rs (tc, scan_words (words a) d) lg'
           else scan_results rs (tc @ transcript a @ ''\<newline>'', d) lg'))"

text \<open>
  \<open>for speaker_tag in sorted(speaker_transcripts.keys())\<close>: one formatted line per key,
  appended to \<open>transcript_content\<close>.
\<close>

definition speaker_line :: "int \<Rightarrow> string list \<Rightarrow> string" where
  "speaker_line tag ws = ''Speaker '' @ str_int tag @ '': '' @ join '' '' ws @ ''\<newline>''"

definition format_speakers :: "speaker_dict \<Rightarrow> string" where
  "format_speakers d =
     concat (map (\<lambda>tag. speaker_line tag (the (map_of d tag))) (sort (map fst d)))"

text \<open>The second loop over the results, in the \<open>elif\<close> branch.\<close>

fun fallback_loop :: "result list \<Rightarrow> string \<Rightarrow> exn + string" where
  "fallback_loop [] tc = Inr tc"
| "fallback_loop (r # rs) tc =
     (case alternatives r of
        [] \<Rightarrow> Inl IndexError
      | a # _ \<Rightarrow> fallback_loop rs (tc @ transcript a @ ''\<newline>''))"

definition no_results_log :: event where
  "no_results_log = Log WARNING ''Speech-to-Text API returned no transcription results.''"

definition fallback_log :: event where
  "fallback_log = Log WARNING ''Diarization did not yield word-level info, falling back.''"

definition empty_transcript_log :: event where
  "empty_transcript_log = Log ERROR ''Final transcript_content is empty.''"

text \<open>What is logged once \<open>transcript_content\<close> is final (lines 151 to 156).\<close>

definition final_logs :: "string \<Rightarrow> event list" where
  "final_logs tc =
     [Log INFO ''Transcription complete.'', Log INFO ''Length of final transcript_content''] @
     [if length tc = 0 then empty_transcript_log
      else Log INFO ''Partial Transcript (first 200 chars)'']"

text \<open>
  The whole of lines 121 to 156: from \<open>response.results\<close> to the final
  \<open>transcript_content\<close>, with the log records written on the way.
\<close>

definition build_transcript :: "result list \<Rightarrow> event list \<times> (exn + string)" where
  "build_transcript rs =
     (let lg0 = [if rs = [] then no_results_log
                 else Log INFO ''Speech-to-Text API returned transcription results.'']
      in case scan_results rs ([], []) lg0 of
           (lg, Inl e) \<Rightarrow> (lg, Inl e)
         | (lg, Inr (tc, d)) \<Rightarrow>
             if d \<noteq> [] then
               (let tc' = tc @ format_speakers d in (lg @ final_logs tc', Inr tc'))
             else if tc = [] \<and> rs \<noteq> [] then
               (case fallback_loop rs tc of
                  Inl e \<Rightarrow> (lg @ [fallback_log], Inl e)
                | Inr tc' \<Rightarrow> (lg @ [fallback_log] @ final_logs tc', Inr tc'))
             else (lg @ final_logs tc, Inr tc))"

definition transcript_of :: "result list \<Rightarrow> exn + string" where
  "transcript_of rs = snd (build_transcript rs)"

section \<open>The transcript as the specification words it\<close>

text \<open>
  The words of a result's top alternative, and all words of a result sequence in
  per-result, per-word scan order.
\<close>

definition top_words :: "result \<Rightarrow> word_info list" where
  "top_words r = (case alternatives r of [] \<Rightarrow> [] | a # _ \<Rightarrow> words a)"

definition top_transcript :: "result \<Rightarrow> string" where
  "top_transcript r = (case alternatives r of [] \<Rightarrow> [] | a # _ \<Rightarrow> transcript a)"

definition all_words :: "result list \<Rightarrow> word_info list" where
  "all_words rs = concat (map top_words rs)"

text \<open>The distinct speaker tags in ascending numeric order.\<close>

definition distinct_tags :: "word_info list \<Rightarrow> int list" where
  "distinct_tags ws = sort (remdups (map speaker_tag ws))"

text \<open>The words attributed to a tag, in scan order.\<close>

definition words_of_tag :: "int \<Rightarrow> word_info list \<Rightarrow> string list" where
  "words_of_tag t ws = map word (filter (\<lambda>w. speaker_tag w = t) ws)"

text \<open>
  A document of lines: every line is followed by a newline, as in the specification's
  example \<open>Speaker 1: hello there\<newline>Speaker 2: hi\<newline>\<close>.
\<close>

definition lines_doc :: "string list \<Rightarrow> string" where
  "lines_doc ls = concat (map (\<lambda>l. l @ ''\<newline>'') ls)"

definition spec_speaker_lines :: "word_info list \<Rightarrow> string list" where
  "spec_speaker_lines ws =
     map (\<lambda>t. ''Speaker '' @ str_int t @ '': '' @ join '' '' (words_of_tag t ws))
       (distinct_tags ws)"

text \<open>The raw transcripts of the results whose top alternative has no word list.\<close>

definition spec_fallback_lines :: "result list \<Rightarrow> string list" where
  "spec_fallback_lines rs = map top_transcript (filter (\<lambda>r. top_words r = []) rs)"

section \<open>Path resolution (lines 56 to 61 of main.py)\<close>

text \<open>
  The functions of Python's \<open>posixpath\<close> that the source calls. \<open>rfind\<close> is
  \<open>s.rfind(c)\<close>: the index of the last occurrence, or \<open>-1\<close>.
\<close>

definition rfind :: "string \<Rightarrow> char \<Rightarrow> int" where
  "rfind s c =
     (if c \<in> set s then int (length s) - 1 - int (length (takeWhile (\<lambda>x. x \<noteq> c) (rev s)))
      else - 1)"

text \<open>\<open>os.path.basename(p)\<close> is \<open>p[p.rfind('/') + 1:]\<close>.\<close>

definition basename :: "string \<Rightarrow> string" where
  "basename p = drop (nat (rfind p CHR ''/'' + 1)) p"

text \<open>
  \<open>os.path.splitext(p)\<close>: the extension starts at the last dot, provided the dot comes
  after the last slash and some character between that slash and the dot is not a dot
  (leading dots do not start an extension).
\<close>

fun has_non_dot :: "string \<Rightarrow> bool" where
  "has_non_dot [] = False"
| "has_non_dot (c # cs) = (if c \<noteq> CHR ''.'' then True else has_non_dot cs)"

definition splitext :: "string \<Rightarrow> string \<times> string" where
  "splitext p =
     (let sepIndex = rfind p CHR ''/''; dotIndex = rfind p CHR ''.'' in
      if dotIndex > sepIndex \<and> has_non_dot (drop (nat (sepIndex + 1)) (take (nat dotIndex) p))
      then (take (nat dotIndex) p, drop (nat dotIndex) p)
      else (p, []))"

text \<open>\<open>os.path.join(a, b)\<close> for two components.\<close>

definition path_join :: "string \<Rightarrow> string \<Rightarrow> string" where
  "path_join a b =
     (if startswith b ''/'' then b
      else if a = [] \<or> last a = CHR ''/'' then a @ b
      else a @ ''/'' @ b)"

definition TEMP_DIR :: string where
  "TEMP_DIR = ''/tmp''"

record artifact_paths =
  local_video_path :: string
  local_audio_path :: string
  gcs_audio_path :: string
  gcs_transcript_path :: string
  gcs_analysis_path :: string

definition resolve_paths :: "string \<Rightarrow> artifact_paths" where
  "resolve_paths file_name =
     (let base_file_name = fst (splitext (basename file_name)) in
      \<lparr>local_video_path = path_join TEMP_DIR (basename file_name),
       local_audio_path = path_join TEMP_DIR (base_file_name @ ''.flac''),
       gcs_audio_path = ''audio/'' @ base_file_name @ ''.flac'',
       gcs_transcript_path = ''transcripts/'' @ base_file_name @ ''.txt'',
       gcs_analysis_path = ''analysis/'' @ base_file_name @ ''_analysis.txt''\<rparr>)"

section \<open>The run: state, collaborators, stages\<close>

text \<open>
  The state of a run is the local file system and the trace written so far. The file
  system maps a path to what it denotes: a regular file or a directory, with its size.
  The scratch directory itself is a directory: \<open>/tmp/\<close> denotes it.
\<close>

datatype entry = RegularFile nat | Directory nat

type_synonym files = "string \<rightharpoonup> entry"

record run_state =
  fs :: files
  trace :: "event list"

text \<open>
  The collaborators are parameters of the run: the process environment, and for each
  external call what it answers (an exception or a value) and what it does to the scratch
  directory. Nothing is assumed about them.
\<close>

record world =
  environ :: "string \<rightharpoonup> string"
  download_to_filename :: "string \<Rightarrow> string \<Rightarrow> string \<Rightarrow> files \<Rightarrow> files \<times> exn option"
  run_ffmpeg :: "string list \<Rightarrow> files \<Rightarrow> files \<times> exn option"
  upload_from_filename :: "string \<Rightarrow> string \<Rightarrow> string \<Rightarrow> files \<Rightarrow> exn option"
  long_running_recognize :: "string \<Rightarrow> exn + result list"
  upload_from_string :: "string \<Rightarrow> string \<Rightarrow> string \<Rightarrow> exn option"
  generate_content :: "string \<Rightarrow> string \<Rightarrow> string \<Rightarrow> exn + string"

text \<open>A step either raises or returns a value, and maps the state in both cases.\<close>

type_synonym 'a step = "run_state \<Rightarrow> run_state \<times> (exn + 'a)"

definition then_do :: "'a step \<Rightarrow> ('a \<Rightarrow> 'b step) \<Rightarrow> 'b step" where
  "then_do m f s = (case m s of (s', Inl e) \<Rightarrow> (s', Inl e) | (s', Inr x) \<Rightarrow> f x s')"

definition emit :: "event \<Rightarrow> unit step" where
  "emit e s = (s\<lparr>trace := trace s @ [e]\<rparr>, Inr ())"

definition emit_all :: "event list \<Rightarrow> unit step" where
  "emit_all es s = (s\<lparr>trace := trace s @ es\<rparr>, Inr ())"

definition answer :: "exn + 'a \<Rightarrow> 'a step" where
  "answer r s = (s, r)"

definition answer_fs :: "(files \<Rightarrow> files \<times> exn option) \<Rightarrow> unit step" where
  "answer_fs f s =
     (case f (fs s) of
        (fs', None) \<Rightarrow> (s\<lparr>fs := fs'\<rparr>, Inr ())
      | (fs', Some e) \<Rightarrow> (s\<lparr>fs := fs'\<rparr>, Inl e))"

text \<open>
  \<open>os.path.getsize(path)\<close> raises when the path does not exist; it returns the size of
  a regular file and of a directory alike.
\<close>

definition getsize :: "string \<Rightarrow> nat step" where
  "getsize path s =
     (case fs s path of
        None \<Rightarrow> (s, Inl FileNotFoundError)
      | Some (RegularFile n) \<Rightarrow> (s, Inr n)
      | Some (Directory n) \<Rightarrow> (s, Inr n))"

text \<open>Step 1: download the video.\<close>

definition download_video :: "world \<Rightarrow> cloud_event \<Rightarrow> artifact_paths \<Rightarrow> unit step" where
  "download_video w ev p =
     then_do (emit (Log INFO ''Downloading'')) (\<lambda>_.
     then_do (emit (Download (bucket ev) (name ev) (local_video_path p))) (\<lambda>_.
     then_do (answer_fs
       (download_to_filename w (bucket ev) (name ev) (local_video_path p))) (\<lambda>_.
     then_do (getsize (local_video_path p)) (\<lambda>_.
     emit (Log INFO ''Successfully downloaded'')))))"

text \<open>
  Step 2: extract the audio. The inner handler logs a CalledProcessError and raises it
  again.
\<close>

definition ffmpeg_command :: "artifact_paths \<Rightarrow> string list" where
  "ffmpeg_command p =
     [''ffmpeg'', ''-i'', local_video_path p, ''-vn'', ''-acodec'', ''flac'',
      ''-ar'', ''16000'', ''-ac'', ''1'', local_audio_path p]"

definition on_called_process_error :: "unit step \<Rightarrow> unit step" where
  "on_called_process_error m s =
     (case m s of
        (s', Inl CalledProcessError) \<Rightarrow>
          (s'\<lparr>trace := trace s' @ [Log ERROR ''FFmpeg command failed'']\<rparr>,
           Inl CalledProcessError)
      | (s', r) \<Rightarrow> (s', r))"

definition extract_audio :: "world \<Rightarrow> artifact_paths \<Rightarrow> unit step" where
  "extract_audio w p =
     then_do (emit (Log INFO ''Executing FFmpeg command'')) (\<lambda>_.
     on_called_process_error (
       then_do (emit (Ffmpeg (ffmpeg_command p))) (\<lambda>_.
       then_do (answer_fs (run_ffmpeg w (ffmpeg_command p))) (\<lambda>_.
       then_do (emit_all [Log INFO ''FFmpeg stdout'', Log INFO ''FFmpeg stderr'']) (\<lambda>_.
       then_do (getsize (local_audio_path p)) (\<lambda>_.
       then_do (emit (Log INFO ''Successfully extracted audio'')) (\<lambda>_.
       then_do (getsize (local_audio_path p)) (\<lambda>n.
       if n = 0 then emit (Log WARNING ''FFmpeg extracted an empty audio file.'')
       else answer (Inr ())))))))))"

text \<open>Step 3: upload the audio.\<close>

definition upload_audio :: "world \<Rightarrow> string \<Rightarrow> artifact_paths \<Rightarrow> unit step" where
  "upload_audio w out_bucket p =
     then_do (emit (UploadFile out_bucket (gcs_audio_path p) (local_audio_path p))) (\<lambda>_.
     then_do (\<lambda>s. (s, case upload_from_filename w out_bucket (gcs_audio_path p)
                            (local_audio_path p) (fs s) of
                        None \<Rightarrow> Inr () | Some e \<Rightarrow> Inl e)) (\<lambda>_.
     emit (Log INFO ''Uploaded extracted audio'')))"

text \<open>Step 4: recognition, then the reconstruction of the transcript.\<close>

definition audio_uri :: "string \<Rightarrow> artifact_paths \<Rightarrow> string" where
  "audio_uri out_bucket p = ''gs://'' @ out_bucket @ ''/'' @ gcs_audio_path p"

definition recognize :: "world \<Rightarrow> string \<Rightarrow> artifact_paths \<Rightarrow> result list step" where
  "recognize w out_bucket p =
     then_do (emit (Log INFO ''Sending audio to Speech-to-Text API'')) (\<lambda>_.
     then_do (emit (Recognize (audio_uri out_bucket p))) (\<lambda>_.
     answer (long_running_recognize w (audio_uri out_bucket p))))"

definition reconstruct :: "result list \<Rightarrow> string step" where
  "reconstruct rs s =
     (case build_transcript rs of (lg, r) \<Rightarrow> (s\<lparr>trace := trace s @ lg\<rparr>, r))"

text \<open>Step 5: save the transcript.\<close>

definition save_transcript ::
  "world \<Rightarrow> string \<Rightarrow> artifact_paths \<Rightarrow> string \<Rightarrow> unit step" where
  "save_transcript w out_bucket p transcript_content =
     then_do (emit (UploadString out_bucket (gcs_transcript_path p) transcript_content)) (\<lambda>_.
     then_do (answer (case upload_from_string w out_bucket (gcs_transcript_path p)
                             transcript_content of
                        None \<Rightarrow> Inr () | Some e \<Rightarrow> Inl e)) (\<lambda>_.
     emit (Log INFO ''Transcription saved'')))"

text \<open>
  The analysis by the LLM. The instruction text is a constant of the source (a long
  literal with punctuation outside ASCII); it is a parameter here.
\<close>

definition full_prompt :: "string \<Rightarrow> string \<Rightarrow> string" where
  "full_prompt analysis_instructions transcript_content =
     analysis_instructions @ ''\<newline>\<newline>Transcript:\<newline>'' @ transcript_content"

definition prompt_logs :: "string \<Rightarrow> event list" where
  "prompt_logs prompt =
     [Log INFO ''Sending prompt to Gemini LLM for analysis'',
      Log INFO ''Length of full_prompt sent to Gemini''] @
     (if length prompt < 500 \<or> length prompt > 10000 then
        [Log INFO ''Full prompt sent to Gemini (first 1000 chars)''] @
        (if length prompt > 10000 then [Log WARNING ''Prompt is very long''] else [])
      else [])"

definition analyze :: "world \<Rightarrow> string \<Rightarrow> string \<Rightarrow> string \<Rightarrow> string step" where
  "analyze w analysis_instructions api_key transcript_content =
     (let prompt = full_prompt analysis_instructions transcript_content in
      then_do (emit_all (prompt_logs prompt)) (\<lambda>_.
      then_do (emit (Generate api_key ''gemini-2.5-pro'' prompt)) (\<lambda>_.
      then_do (answer (generate_content w api_key ''gemini-2.5-pro'' prompt))
        (\<lambda>analysis_content.
      then_do (emit_all [Log INFO ''Gemini analysis complete.'',
                 Log INFO ''Length of Gemini analysis content'',
                 Log INFO ''Partial Analysis (first 200 chars)'']) (\<lambda>_.
      answer (Inr analysis_content))))))"

text \<open>Step 6: save the analysis.\<close>

definition save_analysis ::
  "world \<Rightarrow> string \<Rightarrow> artifact_paths \<Rightarrow> string \<Rightarrow> unit step" where
  "save_analysis w out_bucket p analysis_content =
     then_do (emit (UploadString out_bucket (gcs_analysis_path p) analysis_content)) (\<lambda>_.
     then_do (answer (case upload_from_string w out_bucket (gcs_analysis_path p)
                             analysis_content of
                        None \<Rightarrow> Inr () | Some e \<Rightarrow> Inl e)) (\<lambda>_.
     emit (Log INFO ''Gemini analysis saved'')))"

text \<open>The body of the \<open>try\<close> block.\<close>

definition pipeline_body ::
  "world \<Rightarrow> string \<Rightarrow> string \<Rightarrow> string \<Rightarrow> cloud_event \<Rightarrow> artifact_paths \<Rightarrow> unit step" where
  "pipeline_body w analysis_instructions out_bucket api_key ev p =
     then_do (download_video w ev p) (\<lambda>_.
     then_do (extract_audio w p) (\<lambda>_.
     then_do (upload_audio w out_bucket p) (\<lambda>_.
     then_do (recognize w out_bucket p) (\<lambda>results.
     then_do (reconstruct results) (\<lambda>transcript_content.
     then_do (save_transcript w out_bucket p transcript_content) (\<lambda>_.
     then_do (analyze w analysis_instructions api_key transcript_content)
       (\<lambda>analysis_content.
     save_analysis w out_bucket p analysis_content)))))))"

text \<open>
  The two \<open>except\<close> clauses. The first formats \<open>e.stderr.decode()\<close>, and the transcoder's
  captured output is text, which has no \<open>decode\<close>: the handler itself raises
  AttributeError before it logs. The second logs and raises the exception again.
\<close>

definition with_handlers :: "unit step \<Rightarrow> unit step" where
  "with_handlers m s =
     (case m s of
        (s', Inr x) \<Rightarrow> (s', Inr x)
      | (s', Inl CalledProcessError) \<Rightarrow> (s', Inl AttributeError)
      | (s', Inl e) \<Rightarrow>
          (s'\<lparr>trace := trace s' @
               [Log ERROR ''Error during transcription or analysis process'']\<rparr>, Inl e))"

text \<open>
  \<open>os.remove(path)\<close> deletes a regular file; on a directory it raises
  IsADirectoryError and deletes nothing.
\<close>

definition os_remove :: "string \<Rightarrow> unit step" where
  "os_remove path s =
     (case fs s path of
        None \<Rightarrow> (s, Inl FileNotFoundError)
      | Some (Directory n) \<Rightarrow> (s, Inl IsADirectoryError)
      | Some (RegularFile n) \<Rightarrow>
          (s\<lparr>fs := (fs s)(path := None), trace := trace s @ [Remove path]\<rparr>, Inr ()))"

text \<open>
  \<open>if os.path.exists(path): os.remove(path); logger.info(...)\<close>. A path that denotes a
  directory exists.
\<close>

definition remove_if_exists :: "string \<Rightarrow> unit step" where
  "remove_if_exists path s =
     (if fs s path \<noteq> None
      then then_do (os_remove path) (\<lambda>_. emit (Log INFO ''Cleaned up'')) s
      else (s, Inr ()))"

text \<open>
  The body of the \<open>finally\<close> clause: the video first, then the audio. An exception of
  the first removal leaves the second undone.
\<close>

definition cleanup :: "artifact_paths \<Rightarrow> unit step" where
  "cleanup p =
     then_do (remove_if_exists (local_video_path p)) (\<lambda>_.
     remove_if_exists (local_audio_path p))"

text \<open>
  \<open>try: ... finally: ...\<close>: the final block runs whatever the outcome of the first; when
  it raises, its exception replaces that outcome.
\<close>

definition try_finally :: "unit step \<Rightarrow> unit step \<Rightarrow> unit step" where
  "try_finally m c s =
     (case m s of
        (s', r) \<Rightarrow>
          (case c s' of
             (s'', Inl e) \<Rightarrow> (s'', Inl e)
           | (s'', Inr u) \<Rightarrow> (s'', r)))"

text \<open>\<open>os.environ.get(key, default)\<close>.\<close>

definition environ_get :: "world \<Rightarrow> string \<Rightarrow> string \<Rightarrow> string" where
  "environ_get w key dflt = (case environ w key of None \<Rightarrow> dflt | Some v \<Rightarrow> v)"

definition INPUT_VIDEO_BUCKET :: "world \<Rightarrow> string" where
  "INPUT_VIDEO_BUCKET w = environ_get w ''INPUT_VIDEO_BUCKET'' ''your-input-video-bucket''"

definition TRANSCRIPTION_OUTPUT_BUCKET :: "world \<Rightarrow> string" where
  "TRANSCRIPTION_OUTPUT_BUCKET w =
     environ_get w ''TRANSCRIPTION_OUTPUT_BUCKET'' ''your-transcription-output-bucket''"

text \<open>\<open>not GEMINI_API_KEY\<close>: the variable is unset or the empty string.\<close>

definition credential_missing :: "world \<Rightarrow> bool" where
  "credential_missing w \<longleftrightarrow>
     environ w ''GEMINI_API_KEY'' = None \<or> environ w ''GEMINI_API_KEY'' = Some []"

definition received_logs :: "event list" where
  "received_logs = [Log INFO ''Received upload event for file'', Log INFO ''MIME type'']"

text \<open>The function itself. A normal return, also the early ones, is \<open>Inr ()\<close>.\<close>

definition transcribe_video_from_gcs ::
  "world \<Rightarrow> string \<Rightarrow> cloud_event \<Rightarrow> unit step" where
  "transcribe_video_from_gcs w analysis_instructions ev s =
     (let s0 = s\<lparr>trace := trace s @ received_logs\<rparr> in
      if credential_missing w then
        (s0\<lparr>trace := trace s0 @
              [Log ERROR ''GEMINI_API_KEY environment variable not set.'']\<rparr>,
         Inl (ValueError ''GEMINI_API_KEY is required.''))
      else if bucket ev \<noteq> INPUT_VIDEO_BUCKET w then
        (s0\<lparr>trace := trace s0 @ [Log WARNING ''Ignoring event from unexpected bucket'']\<rparr>,
         Inr ())
      else if \<not> startswith (contentType ev) ''video/'' then
        (s0\<lparr>trace := trace s0 @ [Log WARNING ''Skipping non-video file'']\<rparr>, Inr ())
      else
        (let p = resolve_paths (name ev) in
         try_finally
           (with_handlers
              (pipeline_body w analysis_instructions (TRANSCRIPTION_OUTPUT_BUCKET w)
                 (the (environ w ''GEMINI_API_KEY'')) ev p))
           (cleanup p) s0))"

text \<open>The events of a trace that are not log records: external calls and removals.\<close>

fun is_log :: "event \<Rightarrow> bool" where
  "is_log (Log l m) = True"
| "is_log e = False"

definition effects :: "event list \<Rightarrow> event list" where
  "effects tr = filter (\<lambda>e. \<not> is_log e) tr"

fun is_remove :: "event \<Rightarrow> bool" where
  "is_remove (Remove q) = True"
| "is_remove e = False"

definition removals :: "event list \<Rightarrow> event list" where
  "removals tr = filter is_remove tr"

text \<open>The severity of a trace event: the level of a log record, nothing for the rest.\<close>

fun severity :: "event \<Rightarrow> nat" where
  "severity (Log l m) = level_no l"
| "severity e = 0"

text \<open>
  A step that only appends to the trace, and appends no removal of a file.
\<close>

definition no_removal :: "'a step \<Rightarrow> bool" where
  "no_removal m \<longleftrightarrow> (\<forall>s. \<exists>tr. trace (fst (m s)) = trace s @ tr \<and> removals tr = [])"

section \<open>Example inputs\<close>

text \<open>Two results with words: ("hello", 1), ("there", 1) and ("hi", 2).\<close>

definition two_speaker_results :: "result list" where
  "two_speaker_results =
     [\<lparr>alternatives = [\<lparr>transcript = ''hello there'', confidence = 0.9,
         words = [\<lparr>word = ''hello'', speaker_tag = 1\<rparr>,
                  \<lparr>word = ''there'', speaker_tag = 1\<rparr>]\<rparr>]\<rparr>,
      \<lparr>alternatives = [\<lparr>transcript = ''hi'', confidence = 0.8,
         words = [\<lparr>word = ''hi'', speaker_tag = 2\<rparr>]\<rparr>]\<rparr>]"

text \<open>A result without a word list followed by a result with one.\<close>

definition mixed_results :: "result list" where
  "mixed_results =
     [\<lparr>alternatives = [\<lparr>transcript = ''hello'', confidence = 0.9, words = []\<rparr>]\<rparr>,
      \<lparr>alternatives = [\<lparr>transcript = ''hi'', confidence = 0.8,
         words = [\<lparr>word = ''hi'', speaker_tag = 1\<rparr>]\<rparr>]\<rparr>]"

text \<open>Two results without word lists.\<close>

definition plain_results :: "result list" where
  "plain_results =
     [\<lparr>alternatives = [\<lparr>transcript = ''good morning'', confidence = 0.9, words = []\<rparr>]\<rparr>,
      \<lparr>alternatives = [\<lparr>transcript = ''thank you'', confidence = 0.8, words = []\<rparr>]\<rparr>]"

text \<open>
  A world in which every collaborator succeeds where it can: the download writes the video
  and the transcoder writes the audio (the last argument of its command), unless the
  destination is a directory, which cannot be opened for writing; recognition answers with
  the given results.
\<close>

definition write_file :: "string \<Rightarrow> nat \<Rightarrow> files \<Rightarrow> files \<times> exn option" where
  "write_file path n f =
     (case f path of
        Some (Directory k) \<Rightarrow> (f, Some IsADirectoryError)
      | _ \<Rightarrow> (f(path \<mapsto> RegularFile n), None))"

definition demo_world :: "result list \<Rightarrow> world" where
  "demo_world rs =
     \<lparr>environ = [''INPUT_VIDEO_BUCKET'' \<mapsto> ''in'', ''TRANSCRIPTION_OUTPUT_BUCKET'' \<mapsto> ''out'',
                 ''GEMINI_API_KEY'' \<mapsto> ''key''],
      download_to_filename = (\<lambda>b n path f. write_file path 1000 f),
      run_ffmpeg = (\<lambda>cmd f. write_file (last cmd) 500 f),
      upload_from_filename = (\<lambda>b k path f. None),
      long_running_recognize = (\<lambda>uri. Inr rs),
      upload_from_string = (\<lambda>b k c. None),
      generate_content = (\<lambda>key model prompt. Inr ''analysis'')\<rparr>"

definition clip_event :: cloud_event where
  "clip_event = \<lparr>bucket = ''in'', name = ''clip1.mp4'', contentType = ''video/mp4''\<rparr>"

definition start :: run_state where
  "start = \<lparr>fs = Map.empty, trace = []\<rparr>"

text \<open>The same world without the LLM credential, and one whose transcoder fails.\<close>

definition no_key_world :: world where
  "no_key_world = (demo_world [])\<lparr>environ := [''INPUT_VIDEO_BUCKET'' \<mapsto> ''in'']\<rparr>"

definition failing_world :: world where
  "failing_world =
     (demo_world [])\<lparr>run_ffmpeg :=
        (\<lambda>cmd f. (f(last cmd \<mapsto> RegularFile 0), Some CalledProcessError))\<rparr>"

text \<open>
  An event from another bucket, and a video event for an object whose name ends in a
  slash, as the placeholder of a folder does.
\<close>

definition other_event :: cloud_event where
  "other_event = \<lparr>bucket = ''elsewhere'', name = ''notes.txt'', contentType = ''text/plain''\<rparr>"

definition folder_event :: cloud_event where
  "folder_event = \<lparr>bucket = ''in'', name = ''videos/'', contentType = ''video/mp4''\<rparr>"

text \<open>
  The local file system at the start of a run on a fresh instance: the scratch directory
  and nothing in it. The second state holds an audio file under the name that the folder
  event resolves to.
\<close>

definition scratch_start :: run_state where
  "scratch_start = \<lparr>fs = [''/tmp/'' \<mapsto> Directory 4096], trace = []\<rparr>"

definition leftover_start :: run_state where
  "leftover_start =
     \<lparr>fs = [''/tmp/'' \<mapsto> Directory 4096, ''/tmp/.flac'' \<mapsto> RegularFile 500], trace = []\<rparr>"

section \<open>The speaker dictionary during the scan\<close>

text \<open>
  The invariant of the two loops: after the words \<open>W\<close> have been scanned, the dictionary
  has one entry per tag of \<open>W\<close>, holding the words of that tag in scan order.
\<close>

definition represents :: "speaker_dict \<Rightarrow> word_info list \<Rightarrow> bool" where
  "represents d W \<longleftrightarrow>
     distinct (map fst d) \<and> set (map fst d) = speaker_tag ` set W \<and>
     (\<forall>(k, ws) \<in> set d. ws = words_of_tag k W)"

lemma represents_empty: "represents [] []"
  by (simp add: represents_def)

lemma words_of_tag_snoc:
  "words_of_tag k (W @ [w]) = (if speaker_tag w = k then words_of_tag k W @ [word w] else words_of_tag k W)"
  by (simp add: words_of_tag_def)

lemma words_of_tag_absent: "k \<notin> speaker_tag ` set W \<Longrightarrow> words_of_tag k W = []"
  by (auto simp: words_of_tag_def filter_empty_conv)

lemma map_fst_bump:
  "map fst (map (\<lambda>(k, ws). if k = t then (k, ws @ [x]) else (k, ws)) d) = map fst d"
  by (induction d) (auto split: prod.splits)

lemma bump_entry:
  "(k, ws') \<in> set (map (\<lambda>(k, ws). if k = t then (k, ws @ [x]) else (k, ws)) d)
     \<Longrightarrow> \<exists>ws. (k, ws) \<in> set d \<and> ws' = (if k = t then ws @ [x] else ws)"
  by (induction d) (auto split: prod.splits if_splits)

lemma add_word_represents:
  assumes "represents d W"
  shows "represents (add_word w d) (W @ [w])"
proof -
  let ?t = "speaker_tag w"
  let ?d' = "if ?t \<notin> set (map fst d) then d @ [(?t, [])] else d"
  let ?bump = "map (\<lambda>(k, ws). if k = ?t then (k, ws @ [word w]) else (k, ws))"
  have aw: "add_word w d = ?bump ?d'"
    by (simp add: add_word_def Let_def)
  from assms have dist: "distinct (map fst d)"
    and keys: "set (map fst d) = speaker_tag ` set W"
    and vals: "\<And>k ws. (k, ws) \<in> set d \<Longrightarrow> ws = words_of_tag k W"
    by (auto simp: represents_def)
  have dist': "distinct (map fst ?d')" using dist by simp
  have keys': "set (map fst ?d') = speaker_tag ` set (W @ [w])" using keys by auto
  have vals': "ws = words_of_tag k W" if "(k, ws) \<in> set ?d'" for k ws
  proof (cases "(k, ws) \<in> set d")
    case True
    then show ?thesis by (rule vals)
  next
    case False
    with that have "k = ?t" and "ws = []" and "?t \<notin> set (map fst d)"
      by (auto split: if_splits)
    with keys show ?thesis by (simp add: words_of_tag_absent)
  qed
  have "distinct (map fst (?bump ?d'))"
    using dist' by (simp only: map_fst_bump)
  moreover have "set (map fst (?bump ?d')) = speaker_tag ` set (W @ [w])"
    using keys' by (simp only: map_fst_bump)
  moreover have "\<forall>(k, ws) \<in> set (?bump ?d'). ws = words_of_tag k (W @ [w])"
  proof (clarify)
    fix k ws assume "(k, ws) \<in> set (?bump ?d')"
    from bump_entry [OF this] obtain ws0 where "(k, ws0) \<in> set ?d'"
      and "ws = (if k = ?t then ws0 @ [word w] else ws0)" by blast
    with vals' [of k ws0] show "ws = words_of_tag k (W @ [w])"
      by (simp add: words_of_tag_snoc)
  qed
  ultimately show ?thesis
    unfolding represents_def aw by blast
qed

lemma scan_words_represents:
  "represents d W \<Longrightarrow> represents (scan_words ws d) (W @ ws)"
proof (induction ws arbitrary: d W)
  case Nil
  then show ?case by simp
next
  case (Cons w ws)
  from Cons.prems have "represents (add_word w d) (W @ [w])"
    by (rule add_word_represents)
  from Cons.IH [OF this] show ?case by simp
qed

lemma lines_doc_empty_iff: "lines_doc ls = [] \<longleftrightarrow> ls = []"
  by (cases ls) (simp_all add: lines_doc_def)

lemma scan_results_value:
  assumes "\<forall>r \<in> set rs. alternatives r \<noteq> []" and "represents d W"
  shows "\<exists>d'. snd (scan_results rs (tc, d) lg) = Inr (tc @ lines_doc (spec_fallback_lines rs), d')
            \<and> represents d' (W @ all_words rs)"
  using assms
proof (induction rs arbitrary: tc d W lg)
  case Nil
  then show ?case by (simp add: lines_doc_def spec_fallback_lines_def all_words_def)
next
  case (Cons r rs)
  from Cons.prems obtain a as where alt: "alternatives r = a # as"
    by (cases "alternatives r") auto
  from Cons.prems have rest: "\<forall>r \<in> set rs. alternatives r \<noteq> []" by simp
  show ?case
  proof (cases "words a = []")
    case True
    from Cons.IH [OF rest Cons.prems(2)]
    obtain d' where
      "snd (scan_results rs (tc @ transcript a @ ''\<newline>'', d)
              (lg @ [Log INFO ''Processing Speech-to-Text result'']))
         = Inr ((tc @ transcript a @ ''\<newline>'') @ lines_doc (spec_fallback_lines rs), d')"
      and "represents d' (W @ all_words rs)" by blast
    with alt True show ?thesis
      by (simp add: lines_doc_def spec_fallback_lines_def all_words_def top_words_def
          top_transcript_def)
  next
    case False
    have "represents (scan_words (words a) d) (W @ words a)"
      using Cons.prems(2) by (rule scan_words_represents)
    from Cons.IH [OF rest this]
    obtain d' where
      "snd (scan_results rs (tc, scan_words (words a) d)
              (lg @ [Log INFO ''Processing Speech-to-Text result'']))
         = Inr (tc @ lines_doc (spec_fallback_lines rs), d')"
      and "represents d' ((W @ words a) @ all_words rs)" by blast
    with alt False show ?thesis
      by (simp add: lines_doc_def spec_fallback_lines_def all_words_def top_words_def
          top_transcript_def)
  qed
qed

lemma represents_keys_sorted:
  "represents d W \<Longrightarrow> sort (map fst d) = distinct_tags W"
proof -
  assume r: "represents d W"
  then have "distinct (map fst d)" and s: "set (map fst d) = set (map speaker_tag W)"
    by (simp_all add: represents_def)
  then have "sort (map fst d) = sort (remdups (map fst d))"
    by (simp only: distinct_remdups_id)
  also have "\<dots> = sorted_list_of_set (set (map fst d))"
    by (simp only: sorted_list_of_set_sort_remdups)
  also have "\<dots> = sort (remdups (map speaker_tag W))"
    by (simp only: s sorted_list_of_set_sort_remdups)
  finally show ?thesis by (simp add: distinct_tags_def)
qed

lemma represents_lookup:
  assumes "represents d W" and "t \<in> set (map fst d)"
  shows "the (map_of d t) = words_of_tag t W"
proof -
  from assms(2) obtain ws where mem: "(t, ws) \<in> set d" by auto
  from assms(1) have "distinct (map fst d)" by (simp add: represents_def)
  then have "map_of d t = Some ws" using mem by (rule map_of_is_SomeI)
  moreover from assms(1) mem have "ws = words_of_tag t W"
    by (auto simp: represents_def)
  ultimately show ?thesis by simp
qed

lemma format_speakers_represents:
  assumes "represents d W"
  shows "format_speakers d = lines_doc (spec_speaker_lines W)"
proof -
  have keys: "sort (map fst d) = distinct_tags W"
    using assms by (rule represents_keys_sorted)
  have "\<forall>t \<in> set (distinct_tags W). the (map_of d t) = words_of_tag t W"
  proof
    fix t assume "t \<in> set (distinct_tags W)"
    then have "t \<in> set (map fst d)" using keys [symmetric] by simp
    with assms show "the (map_of d t) = words_of_tag t W" by (rule represents_lookup)
  qed
  then have "map (\<lambda>tag. speaker_line tag (the (map_of d tag))) (distinct_tags W)
      = map (\<lambda>l. l @ ''\<newline>'') (spec_speaker_lines W)"
    by (simp add: spec_speaker_lines_def speaker_line_def)
  then show ?thesis
    by (simp add: format_speakers_def keys lines_doc_def)
qed

lemma spec_speaker_lines_nil: "spec_speaker_lines [] = []"
  by (simp add: spec_speaker_lines_def distinct_tags_def)

lemma transcript_of_general:
  assumes "\<forall>r \<in> set rs. alternatives r \<noteq> []"
  shows "transcript_of rs =
    Inr (lines_doc (spec_fallback_lines rs) @ lines_doc (spec_speaker_lines (all_words rs)))"
proof -
  let ?lg0 = "[if rs = [] then no_results_log
               else Log INFO ''Speech-to-Text API returned transcription results.'']"
  from scan_results_value [OF assms represents_empty, of "[]" ?lg0]
  obtain d where sc: "snd (scan_results rs ([], []) ?lg0) = Inr (lines_doc (spec_fallback_lines rs), d)"
    and rep: "represents d (all_words rs)" by auto
  obtain lg where sc': "scan_results rs ([], []) ?lg0 = (lg, Inr (lines_doc (spec_fallback_lines rs), d))"
    using sc by (cases "scan_results rs ([], []) ?lg0") auto
  show ?thesis
  proof (cases "d = []")
    case False
    with sc' format_speakers_represents [OF rep] show ?thesis
      by (simp add: transcript_of_def build_transcript_def Let_def)
  next
    case True
    with rep have aw: "all_words rs = []" by (simp add: represents_def)
    then have "\<forall>r \<in> set rs. top_words r = []" by (simp add: all_words_def)
    then have "spec_fallback_lines rs = map top_transcript rs"
      by (simp add: spec_fallback_lines_def)
    then have "lines_doc (spec_fallback_lines rs) = [] \<longleftrightarrow> rs = []"
      by (simp add: lines_doc_empty_iff)
    with True sc' aw show ?thesis
      by (auto simp: transcript_of_def build_transcript_def spec_speaker_lines_nil lines_doc_def Let_def)
  qed
qed

lemma lines_doc_join: "ls \<noteq> [] \<Longrightarrow> lines_doc ls = join ''\<newline>'' ls @ ''\<newline>''"
  by (induction "''\<newline>''" ls rule: join.induct) (simp_all add: lines_doc_def)

lemma top_words_alternatives: "top_words r \<noteq> [] \<Longrightarrow> alternatives r \<noteq> []"
  by (auto simp: top_words_def)

lemmas transcript_eval =
  transcript_of_def build_transcript_def add_word_def format_speakers_def speaker_line_def
  str_int_def str_nat.simps final_logs_def Let_def

lemmas spec_eval =
  lines_doc_def spec_speaker_lines_def spec_fallback_lines_def all_words_def top_words_def
  top_transcript_def distinct_tags_def words_of_tag_def str_int_def str_nat.simps

lemma add_word_nonempty: "add_word w d \<noteq> []"
  by (auto simp: add_word_def Let_def)

lemma scan_words_nonempty: "ws \<noteq> [] \<or> d \<noteq> [] \<Longrightarrow> scan_words ws d \<noteq> []"
proof (induction ws arbitrary: d)
  case Nil
  then show ?case by simp
next
  case (Cons w ws)
  have "ws \<noteq> [] \<or> add_word w d \<noteq> []" by (simp add: add_word_nonempty)
  from Cons.IH [OF this] show ?case by simp
qed

lemma scan_results_nonempty:
  assumes "snd (scan_results rs (tc, d) lg) = Inr (tc', d')"
    and "rs \<noteq> [] \<or> tc \<noteq> [] \<or> d \<noteq> []"
  shows "tc' \<noteq> [] \<or> d' \<noteq> []"
  using assms
proof (induction rs arbitrary: tc d lg)
  case Nil
  then show ?case by auto
next
  case (Cons r rs)
  show ?case
  proof (cases "alternatives r")
    case Nil
    with Cons.prems(1) show ?thesis by simp
  next
    case (Cons a as)
    show ?thesis
    proof (cases "words a = []")
      case True
      with Cons Cons.prems(1)
      have "snd (scan_results rs (tc @ transcript a @ ''\<newline>'', d)
               (lg @ [Log INFO ''Processing Speech-to-Text result''])) = Inr (tc', d')"
        by simp
      then show ?thesis by (rule Cons.IH) simp
    next
      case False
      with Cons Cons.prems(1)
      have "snd (scan_results rs (tc, scan_words (words a) d)
               (lg @ [Log INFO ''Processing Speech-to-Text result''])) = Inr (tc', d')"
        by simp
      moreover from False have "rs \<noteq> [] \<or> tc \<noteq> [] \<or> scan_words (words a) d \<noteq> []"
        by (simp add: scan_words_nonempty)
      ultimately show ?thesis by (rule Cons.IH)
    qed
  qed
qed

section \<open>The log of the reconstruction\<close>

text \<open>
  The scan writes one INFO record per result; the record for an empty answer is written
  for the empty sequence only, and the notice of the \<open>elif\<close> branch never: after a
  scan of a non-empty sequence the accumulator or the dictionary is not empty.
\<close>

lemma scan_results_log:
  "\<exists>n. fst (scan_results rs acc lg)
        = lg @ replicate n (Log INFO ''Processing Speech-to-Text result'')"
proof (induction rs arbitrary: acc lg)
  case Nil
  have "fst (scan_results [] acc lg) = lg @ replicate 0 (Log INFO ''Processing Speech-to-Text result'')"
    by simp
  then show ?case by blast
next
  case (Cons r rs)
  obtain tc d where acc: "acc = (tc, d)" by (cases acc)
  show ?case
  proof (cases "alternatives r")
    case Nil
    with acc have "fst (scan_results (r # rs) acc lg)
        = lg @ replicate 0 (Log INFO ''Processing Speech-to-Text result'')"
      by simp
    then show ?thesis by blast
  next
    case (Cons a as)
    let ?P = "Log INFO ''Processing Speech-to-Text result''"
    let ?acc' = "if words a \<noteq> [] then (tc, scan_words (words a) d)
                 else (tc @ transcript a @ ''\<newline>'', d)"
    from Cons.IH [of ?acc' "lg @ [?P]"]
    obtain n where "fst (scan_results rs ?acc' (lg @ [?P])) = (lg @ [?P]) @ replicate n ?P"
      by blast
    with acc Cons have "fst (scan_results (r # rs) acc lg) = lg @ replicate (Suc n) ?P"
      by (simp add: Let_def split: if_splits)
    then show ?thesis by blast
  qed
qed

lemma build_transcript_logs: "list_all is_log (fst (build_transcript rs))"
proof -
  let ?lg0 = "[if rs = [] then no_results_log
               else Log INFO ''Speech-to-Text API returned transcription results.'']"
  obtain lg r where sc: "scan_results rs ([], []) ?lg0 = (lg, r)"
    by (cases "scan_results rs ([], []) ?lg0")
  from scan_results_log [of rs "([], [])" ?lg0] sc
  obtain n where "lg = ?lg0 @ replicate n (Log INFO ''Processing Speech-to-Text result'')"
    by auto
  then have lg: "list_all is_log lg"
    by (simp add: no_results_log_def list_all_iff)
  have fin: "list_all is_log (final_logs tc)" for tc
    by (simp add: final_logs_def empty_transcript_log_def)
  show ?thesis
    using sc lg fin
    by (auto simp: build_transcript_def Let_def fallback_log_def split: sum.splits prod.splits)
qed

lemma build_transcript_empty:
  "build_transcript [] =
     ([no_results_log, Log INFO ''Transcription complete.'',
       Log INFO ''Length of final transcript_content'', empty_transcript_log], Inr [])"
  by (simp add: build_transcript_def final_logs_def Let_def)

lemma no_results_log_only_when_empty:
  "(no_results_log \<in> set (fst (build_transcript rs))) = (rs = [])"
proof (cases "rs = []")
  case True
  then show ?thesis by (simp add: build_transcript_empty)
next
  case False
  let ?lg0 = "[Log INFO ''Speech-to-Text API returned transcription results.'']"
  obtain lg r where sc: "scan_results rs ([], []) ?lg0 = (lg, r)"
    by (cases "scan_results rs ([], []) ?lg0")
  from scan_results_log [of rs "([], [])" ?lg0] sc
  obtain n where "lg = ?lg0 @ replicate n (Log INFO ''Processing Speech-to-Text result'')"
    by auto
  then have lg: "no_results_log \<notin> set lg"
    by (auto simp: no_results_log_def)
  have fin: "no_results_log \<notin> set (final_logs tc)" for tc
    by (simp add: final_logs_def empty_transcript_log_def no_results_log_def)
  have "no_results_log \<notin> set (fst (build_transcript rs))"
    using False sc lg fin
    by (auto simp: build_transcript_def Let_def fallback_log_def no_results_log_def
        split: sum.splits prod.splits)
  with False show ?thesis by simp
qed

lemma plain_results_logs:
  assumes "rs \<noteq> []" and "\<forall>r \<in> set rs. alternatives r \<noteq> [] \<and> top_words r = []"
  shows "\<forall>e \<in> set (fst (build_transcript rs)). severity e = level_no INFO"
proof -
  let ?lg0 = "[Log INFO ''Speech-to-Text API returned transcription results.'']"
  from assms(2) have alts: "\<forall>r \<in> set rs. alternatives r \<noteq> []" by simp
  from scan_results_value [OF alts represents_empty, of "[]" ?lg0]
  obtain d where sc: "snd (scan_results rs ([], []) ?lg0)
        = Inr (lines_doc (spec_fallback_lines rs), d)"
    and rep: "represents d (all_words rs)" by auto
  from assms(2) have "all_words rs = []" by (simp add: all_words_def)
  with rep have d: "d = []" by (simp add: represents_def)
  from assms(2) have "filter (\<lambda>r. top_words r = []) rs = rs" by simp
  with assms(1) have tc: "lines_doc (spec_fallback_lines rs) \<noteq> []"
    by (simp add: spec_fallback_lines_def lines_doc_empty_iff)
  from scan_results_log [of rs "([], [])" ?lg0]
  obtain n where lg: "fst (scan_results rs ([], []) ?lg0)
        = ?lg0 @ replicate n (Log INFO ''Processing Speech-to-Text result'')"
    by auto
  have "scan_results rs ([], []) ?lg0
      = (?lg0 @ replicate n (Log INFO ''Processing Speech-to-Text result''),
         Inr (lines_doc (spec_fallback_lines rs), []))"
    using sc lg d by (cases "scan_results rs ([], []) ?lg0") simp
  with assms(1) tc have "fst (build_transcript rs) =
      ?lg0 @ replicate n (Log INFO ''Processing Speech-to-Text result'')
      @ final_logs (lines_doc (spec_fallback_lines rs))"
    by (simp add: build_transcript_def Let_def)
  with tc show ?thesis
    by (auto simp: final_logs_def)
qed

lemma fallback_log_never: "fallback_log \<notin> set (fst (build_transcript rs))"
proof -
  let ?lg0 = "[if rs = [] then no_results_log
               else Log INFO ''Speech-to-Text API returned transcription results.'']"
  obtain lg r where sc: "scan_results rs ([], []) ?lg0 = (lg, r)"
    by (cases "scan_results rs ([], []) ?lg0")
  from scan_results_log [of rs "([], [])" ?lg0] sc
  obtain n where "lg = ?lg0 @ replicate n (Log INFO ''Processing Speech-to-Text result'')"
    by auto
  then have lg: "fallback_log \<notin> set lg"
    by (auto simp: no_results_log_def fallback_log_def)
  have fin: "fallback_log \<notin> set (final_logs tc)" for tc
    by (simp add: final_logs_def empty_transcript_log_def fallback_log_def)
  show ?thesis
  proof (cases r)
    case (Inl e)
    with sc lg show ?thesis by (simp add: build_transcript_def Let_def)
  next
    case (Inr acc)
    obtain tc d where acc: "acc = (tc, d)" by (cases acc)
    with sc Inr have "snd (scan_results rs ([], []) ?lg0) = Inr (tc, d)" by simp
    then have "rs \<noteq> [] \<Longrightarrow> tc \<noteq> [] \<or> d \<noteq> []"
      by (rule scan_results_nonempty) simp
    then have "\<not> (d = [] \<and> tc = [] \<and> rs \<noteq> [])" by blast
    with sc Inr acc lg fin show ?thesis
      by (auto simp: build_transcript_def Let_def)
  qed
qed

section \<open>Claims about the transcript\<close>

text \<open>
  C1. When the top alternative of every result carries words with speaker tags, the
  transcript is one line per distinct tag, in ascending numeric order of the tags, each
  line \<open>Speaker <tag>: \<close> followed by the words of that tag joined by spaces, in scan
  order, and each line ended by a newline. The number of lines is the number of distinct
  tags. For the words ("hello", 1), ("there", 1) in a first result and ("hi", 2) in a
  second, whatever their transcripts and confidences, the transcript is
  \<open>Speaker 1: hello there\<newline>Speaker 2: hi\<newline>\<close>.
\<close>

theorem C1_speaker_lines:
  assumes "\<forall>r \<in> set rs. top_words r \<noteq> []"
  shows "transcript_of rs = Inr (lines_doc (spec_speaker_lines (all_words rs)))
    \<and> length (spec_speaker_lines (all_words rs)) = card (speaker_tag ` set (all_words rs))
    \<and> sorted (distinct_tags (all_words rs)) \<and> distinct (distinct_tags (all_words rs))
    \<and> set (distinct_tags (all_words rs)) = speaker_tag ` set (all_words rs)
    \<and> transcript_of
         [\<lparr>alternatives = [\<lparr>transcript = t1, confidence = c1,
             words = [\<lparr>word = ''hello'', speaker_tag = 1\<rparr>,
                      \<lparr>word = ''there'', speaker_tag = 1\<rparr>]\<rparr>]\<rparr>,
          \<lparr>alternatives = [\<lparr>transcript = t2, confidence = c2,
             words = [\<lparr>word = ''hi'', speaker_tag = 2\<rparr>]\<rparr>]\<rparr>]
        = Inr ''Speaker 1: hello there\<newline>Speaker 2: hi\<newline>''"
proof -
  from assms have alts: "\<forall>r \<in> set rs. alternatives r \<noteq> []"
    by (simp add: top_words_alternatives)
  from assms have "filter (\<lambda>r. top_words r = []) rs = []"
    by (simp add: filter_empty_conv)
  then have "spec_fallback_lines rs = []"
    by (simp add: spec_fallback_lines_def)
  with transcript_of_general [OF alts]
  have 1: "transcript_of rs = Inr (lines_doc (spec_speaker_lines (all_words rs)))"
    by (simp add: lines_doc_def)
  have 2: "length (spec_speaker_lines (all_words rs)) = card (speaker_tag ` set (all_words rs))"
    by (simp add: spec_speaker_lines_def distinct_tags_def length_remdups_card_conv)
  have 3: "sorted (distinct_tags (all_words rs)) \<and> distinct (distinct_tags (all_words rs))
    \<and> set (distinct_tags (all_words rs)) = speaker_tag ` set (all_words rs)"
    by (simp add: distinct_tags_def)
  have 4: "transcript_of
         [\<lparr>alternatives = [\<lparr>transcript = t1, confidence = c1,
             words = [\<lparr>word = ''hello'', speaker_tag = 1\<rparr>,
                      \<lparr>word = ''there'', speaker_tag = 1\<rparr>]\<rparr>]\<rparr>,
          \<lparr>alternatives = [\<lparr>transcript = t2, confidence = c2,
             words = [\<lparr>word = ''hi'', speaker_tag = 2\<rparr>]\<rparr>]\<rparr>]
        = Inr ''Speaker 1: hello there\<newline>Speaker 2: hi\<newline>''"
    by (simp add: transcript_eval)
  from 1 2 3 4 show ?thesis by blast
qed

theorem C1_speaker_lines_witness:
  "list_all (\<lambda>r. top_words r \<noteq> []) two_speaker_results
   \<and> transcript_of two_speaker_results
       = Inr (lines_doc (spec_speaker_lines (all_words two_speaker_results)))
   \<and> lines_doc (spec_speaker_lines (all_words two_speaker_results))
       = ''Speaker 1: hello there\<newline>Speaker 2: hi\<newline>''"
proof -
  have h: "\<forall>r \<in> set two_speaker_results. top_words r \<noteq> []"
    by (simp add: two_speaker_results_def top_words_def)
  have "lines_doc (spec_speaker_lines (all_words two_speaker_results))
       = ''Speaker 1: hello there\<newline>Speaker 2: hi\<newline>''"
    by (simp add: two_speaker_results_def spec_eval)
  with h C1_speaker_lines [OF h] show ?thesis by (simp add: list_all_iff)
qed

text \<open>
  C2, as stated, fails: for a result without words (transcript "hello") followed by a
  result with the word ("hi", 1), the transcript is \<open>hello\<newline>Speaker 1: hi\<newline>\<close>. It is
  not the per-speaker lines alone: the line of the fallback accumulator is in the output.
\<close>

theorem C2_counterexample:
  "top_words (mixed_results ! 0) = [] \<and> top_transcript (mixed_results ! 0) = ''hello''
   \<and> top_words (mixed_results ! 1) \<noteq> []
   \<and> transcript_of mixed_results = Inr ''hello\<newline>Speaker 1: hi\<newline>''
   \<and> lines_doc (spec_speaker_lines (all_words mixed_results)) = ''Speaker 1: hi\<newline>''
   \<and> transcript_of mixed_results
       \<noteq> Inr (lines_doc (spec_speaker_lines (all_words mixed_results)))"
proof -
  have 1: "transcript_of mixed_results = Inr ''hello\<newline>Speaker 1: hi\<newline>''"
    by (simp add: mixed_results_def transcript_eval)
  have 2: "lines_doc (spec_speaker_lines (all_words mixed_results)) = ''Speaker 1: hi\<newline>''"
    by (simp add: mixed_results_def spec_eval)
  have 3: "top_words (mixed_results ! 0) = [] \<and> top_transcript (mixed_results ! 0) = ''hello''
    \<and> top_words (mixed_results ! 1) \<noteq> []"
    by (simp add: mixed_results_def top_words_def top_transcript_def)
  from 1 2 have "transcript_of mixed_results
       \<noteq> Inr (lines_doc (spec_speaker_lines (all_words mixed_results)))"
    by simp
  with 1 2 3 show ?thesis by blast
qed

text \<open>
  C2, amended. When every result has a top alternative, at least one of them carries words
  and at least one carries none, the transcript is the content of the fallback accumulator
  (the transcripts of the results without words, in result order, each followed by a
  newline) followed by the per-speaker lines. The fallback content is not empty and it is
  kept.
\<close>

theorem C2_fallback_kept:
  assumes "\<forall>r \<in> set rs. alternatives r \<noteq> []"
    and "\<exists>r \<in> set rs. top_words r \<noteq> []"
    and "\<exists>r \<in> set rs. top_words r = []"
  shows "transcript_of rs =
      Inr (lines_doc (spec_fallback_lines rs) @ lines_doc (spec_speaker_lines (all_words rs)))
    \<and> lines_doc (spec_fallback_lines rs) \<noteq> []
    \<and> lines_doc (spec_speaker_lines (all_words rs)) \<noteq> []"
proof -
  from assms(3) have "filter (\<lambda>r. top_words r = []) rs \<noteq> []"
    by (simp add: filter_empty_conv)
  then have fb: "lines_doc (spec_fallback_lines rs) \<noteq> []"
    by (simp add: lines_doc_empty_iff spec_fallback_lines_def)
  from assms(2) have "all_words rs \<noteq> []"
    by (auto simp: all_words_def)
  then have "set (distinct_tags (all_words rs)) \<noteq> {}"
    by (simp add: distinct_tags_def)
  then have "distinct_tags (all_words rs) \<noteq> []"
    by simp
  then have "spec_speaker_lines (all_words rs) \<noteq> []"
    by (simp add: spec_speaker_lines_def)
  then have sp: "lines_doc (spec_speaker_lines (all_words rs)) \<noteq> []"
    by (simp add: lines_doc_empty_iff)
  from transcript_of_general [OF assms(1)] fb sp show ?thesis by blast
qed

theorem C2_fallback_kept_witness:
  "list_all (\<lambda>r. alternatives r \<noteq> []) mixed_results
   \<and> (\<exists>r \<in> set mixed_results. top_words r \<noteq> [])
   \<and> (\<exists>r \<in> set mixed_results. top_words r = [])
   \<and> transcript_of mixed_results =
      Inr (lines_doc (spec_fallback_lines mixed_results)
           @ lines_doc (spec_speaker_lines (all_words mixed_results)))
   \<and> lines_doc (spec_fallback_lines mixed_results) = ''hello\<newline>''"
proof -
  have h1: "\<forall>r \<in> set mixed_results. alternatives r \<noteq> []"
    by (simp add: mixed_results_def)
  have h2: "\<exists>r \<in> set mixed_results. top_words r \<noteq> []"
    by (simp add: mixed_results_def top_words_def)
  have h3: "\<exists>r \<in> set mixed_results. top_words r = []"
    by (simp add: mixed_results_def top_words_def)
  have "lines_doc (spec_fallback_lines mixed_results) = ''hello\<newline>''"
    by (simp add: mixed_results_def spec_eval)
  with h1 h2 h3 C2_fallback_kept [OF h1 h2 h3] show ?thesis by (simp add: list_all_iff)
qed

text \<open>
  C3. For a non-empty result sequence in which every result has a top alternative and none
  carries words, the transcript is the transcripts of the top alternatives in their
  original order, each followed by a newline: they are joined by newlines, and a newline
  ends the document.
\<close>

theorem C3_plain_transcripts:
  assumes "rs \<noteq> []" and "\<forall>r \<in> set rs. alternatives r \<noteq> [] \<and> top_words r = []"
  shows "transcript_of rs = Inr (lines_doc (map top_transcript rs))
    \<and> lines_doc (map top_transcript rs)
        = join ''\<newline>'' (map top_transcript rs) @ ''\<newline>''"
proof -
  from assms(2) have alts: "\<forall>r \<in> set rs. alternatives r \<noteq> []" by simp
  from assms(2) have "filter (\<lambda>r. top_words r = []) rs = rs" by simp
  then have fb: "spec_fallback_lines rs = map top_transcript rs"
    by (simp add: spec_fallback_lines_def)
  from assms(2) have "all_words rs = []" by (simp add: all_words_def)
  with transcript_of_general [OF alts] fb
  have "transcript_of rs = Inr (lines_doc (map top_transcript rs))"
    by (simp add: spec_speaker_lines_nil lines_doc_def)
  moreover from assms(1) have "lines_doc (map top_transcript rs)
        = join ''\<newline>'' (map top_transcript rs) @ ''\<newline>''"
    by (simp add: lines_doc_join)
  ultimately show ?thesis by blast
qed

theorem C3_plain_transcripts_witness:
  "plain_results \<noteq> []
   \<and> list_all (\<lambda>r. alternatives r \<noteq> [] \<and> top_words r = []) plain_results
   \<and> transcript_of plain_results = Inr (lines_doc (map top_transcript plain_results))
   \<and> lines_doc (map top_transcript plain_results) = ''good morning\<newline>thank you\<newline>''"
proof -
  have h1: "plain_results \<noteq> []" by (simp add: plain_results_def)
  have h2: "\<forall>r \<in> set plain_results. alternatives r \<noteq> [] \<and> top_words r = []"
    by (simp add: plain_results_def top_words_def)
  have "lines_doc (map top_transcript plain_results) = ''good morning\<newline>thank you\<newline>''"
    by (simp add: plain_results_def spec_eval)
  with h1 h2 C3_plain_transcripts [OF h1 h2] show ?thesis by (simp add: list_all_iff)
qed

section \<open>Properties of path resolution\<close>

text \<open>
  \<open>rfind\<close> finds the last occurrence; from that, what \<open>basename\<close> and
  \<open>splitext\<close> cut off, and the shape of the resolved paths.
\<close>

lemma rfind_last_occurrence:
  assumes "s = ys @ c # zs" and "c \<notin> set zs"
  shows "rfind s c = int (length ys)"
proof -
  have "takeWhile (\<lambda>x. x \<noteq> c) (rev zs @ c # rev ys) = takeWhile (\<lambda>x. x \<noteq> c) (rev zs)"
    by (rule takeWhile_tail) simp
  also have "\<dots> = rev zs"
    using assms(2) by auto
  finally have "takeWhile (\<lambda>x. x \<noteq> c) (rev s) = rev zs"
    using assms(1) by simp
  then show ?thesis
    using assms(1) by (simp add: rfind_def)
qed

lemma rfind_absent: "c \<notin> set s \<Longrightarrow> rfind s c = - 1"
  by (simp add: rfind_def)

lemma rfind_lower: "- 1 \<le> rfind s c"
proof (cases "c \<in> set s")
  case True
  then obtain ys zs where "s = ys @ c # zs" and "c \<notin> set zs"
    by (auto dest: split_list_last)
  then have "rfind s c = int (length ys)" by (rule rfind_last_occurrence)
  then show ?thesis by simp
next
  case False
  then show ?thesis by (simp add: rfind_absent)
qed

lemma basename_last_slash:
  assumes "p = ys @ CHR ''/'' # zs" and "CHR ''/'' \<notin> set zs"
  shows "basename p = zs"
proof -
  from assms have "rfind p CHR ''/'' = int (length ys)" by (rule rfind_last_occurrence)
  then have "nat (rfind p CHR ''/'' + 1) = Suc (length ys)" by simp
  then show ?thesis by (simp add: basename_def assms(1))
qed

lemma basename_split:
  "\<exists>dir. p = dir @ basename p \<and> (dir = [] \<or> last dir = CHR ''/'')"
proof (cases "CHR ''/'' \<in> set p")
  case True
  then obtain ys zs where p: "p = ys @ CHR ''/'' # zs" and z: "CHR ''/'' \<notin> set zs"
    by (auto dest: split_list_last)
  then have "basename p = zs" by (rule basename_last_slash)
  with p have "p = (ys @ ''/'') @ basename p \<and> last (ys @ ''/'') = CHR ''/''" by simp
  then show ?thesis by blast
next
  case False
  then have "basename p = p" by (simp add: basename_def rfind_absent)
  then show ?thesis by simp
qed

lemma basename_no_slash: "CHR ''/'' \<notin> set (basename p)"
proof (cases "CHR ''/'' \<in> set p")
  case True
  then obtain ys zs where p: "p = ys @ CHR ''/'' # zs" and z: "CHR ''/'' \<notin> set zs"
    by (auto dest: split_list_last)
  then have "basename p = zs" by (rule basename_last_slash)
  with z show ?thesis by simp
next
  case False
  then show ?thesis by (simp add: basename_def rfind_absent)
qed

lemma splitext_parts:
  "fst (splitext p) @ snd (splitext p) = p \<and>
   (snd (splitext p) = [] \<or>
    hd (snd (splitext p)) = CHR ''.'' \<and> CHR ''.'' \<notin> set (tl (snd (splitext p))))"
proof (cases "CHR ''.'' \<in> set p")
  case True
  then obtain ys zs where p: "p = ys @ CHR ''.'' # zs" and z: "CHR ''.'' \<notin> set zs"
    by (auto dest: split_list_last)
  then have "rfind p CHR ''.'' = int (length ys)" by (rule rfind_last_occurrence)
  with p z show ?thesis by (simp add: splitext_def Let_def)
next
  case False
  then have "rfind p CHR ''.'' = - 1" by (rule rfind_absent)
  moreover have "- 1 \<le> rfind p CHR ''/''" by (rule rfind_lower)
  ultimately show ?thesis by (simp add: splitext_def Let_def)
qed

lemma path_join_TEMP_DIR:
  "CHR ''/'' \<notin> set x \<Longrightarrow> path_join TEMP_DIR x = ''/tmp/'' @ x"
  by (cases x) (auto simp: path_join_def TEMP_DIR_def startswith_def)

lemma resolve_paths_shape:
  "resolve_paths file_name =
     \<lparr>local_video_path = ''/tmp/'' @ basename file_name,
      local_audio_path = ''/tmp/'' @ fst (splitext (basename file_name)) @ ''.flac'',
      gcs_audio_path = ''audio/'' @ fst (splitext (basename file_name)) @ ''.flac'',
      gcs_transcript_path = ''transcripts/'' @ fst (splitext (basename file_name)) @ ''.txt'',
      gcs_analysis_path = ''analysis/'' @ fst (splitext (basename file_name)) @ ''_analysis.txt''\<rparr>"
proof -
  let ?b = "basename file_name"
  have b: "CHR ''/'' \<notin> set ?b" by (rule basename_no_slash)
  have "fst (splitext ?b) @ snd (splitext ?b) = ?b" using splitext_parts by blast
  then have "set (fst (splitext ?b)) \<subseteq> set ?b"
    by (metis set_append sup_ge1)
  with b have "CHR ''/'' \<notin> set (fst (splitext ?b) @ ''.flac'')" by auto
  with b show ?thesis
    by (simp add: resolve_paths_def Let_def path_join_TEMP_DIR)
qed

lemmas path_eval = resolve_paths_def basename_def splitext_def rfind_def path_join_def
  TEMP_DIR_def startswith_def Let_def

lemma has_non_dot_iff: "has_non_dot s \<longleftrightarrow> (\<exists>c \<in> set s. c \<noteq> CHR ''.'')"
  by (induction s) auto

lemma basename_after_dir:
  assumes "dir = [] \<or> last dir = CHR ''/''" and "CHR ''/'' \<notin> set b"
  shows "basename (dir @ b) = b"
proof (cases "dir = []")
  case True
  with assms(2) show ?thesis by (simp add: basename_def rfind_absent)
next
  case False
  with assms(1) have "dir = butlast dir @ [CHR ''/'']"
    by (metis append_butlast_last_id)
  then have "dir @ b = butlast dir @ CHR ''/'' # b"
    by (metis append_Cons append_Nil append_assoc)
  then show ?thesis using assms(2) by (rule basename_last_slash)
qed

lemma splitext_extension:
  assumes "CHR ''/'' \<notin> set stem" and "CHR ''/'' \<notin> set ext" and "CHR ''.'' \<notin> set ext"
    and "\<exists>c \<in> set stem. c \<noteq> CHR ''.''"
  shows "splitext (stem @ CHR ''.'' # ext) = (stem, CHR ''.'' # ext)"
proof -
  have dot: "rfind (stem @ CHR ''.'' # ext) CHR ''.'' = int (length stem)"
    using assms(3) by (intro rfind_last_occurrence) auto
  have "CHR ''/'' \<notin> set (stem @ CHR ''.'' # ext)"
    using assms(1,2) by simp
  then have sep: "rfind (stem @ CHR ''.'' # ext) CHR ''/'' = - 1"
    by (rule rfind_absent)
  from assms(4) have "has_non_dot stem" by (simp add: has_non_dot_iff)
  with dot sep show ?thesis by (simp add: splitext_def Let_def)
qed

lemma splitext_no_extension:
  assumes "CHR ''/'' \<notin> set rest" and "CHR ''.'' \<notin> set rest"
  shows "splitext (replicate n CHR ''.'' @ rest) = (replicate n CHR ''.'' @ rest, [])"
proof (cases n)
  case 0
  with assms show ?thesis by (simp add: splitext_def Let_def rfind_absent)
next
  case (Suc m)
  let ?b = "replicate m CHR ''.'' @ CHR ''.'' # rest"
  have b: "replicate n CHR ''.'' @ rest = ?b"
    using Suc by (simp add: replicate_app_Cons_same)
  have dot: "rfind ?b CHR ''.'' = int (length (replicate m CHR ''.''))"
    using assms(2) by (intro rfind_last_occurrence) auto
  have "CHR ''/'' \<notin> set ?b" using assms(1) by auto
  then have sep: "rfind ?b CHR ''/'' = - 1" by (rule rfind_absent)
  have "\<not> has_non_dot (replicate m CHR ''.'')" by (simp add: has_non_dot_iff)
  with dot sep have "splitext ?b = (?b, [])" by (simp add: splitext_def Let_def)
  with b show ?thesis by simp
qed

lemma base_name_cases:
  assumes "CHR ''/'' \<notin> set b"
  shows "(\<exists>stem ext. b = stem @ ''.'' @ ext \<and> CHR ''/'' \<notin> set stem \<and> CHR ''/'' \<notin> set ext
            \<and> CHR ''.'' \<notin> set ext \<and> (\<exists>c \<in> set stem. c \<noteq> CHR ''.''))
       \<or> (\<exists>n rest. b = replicate n CHR ''.'' @ rest \<and> CHR ''/'' \<notin> set rest
            \<and> CHR ''.'' \<notin> set rest)"
proof (cases "CHR ''.'' \<in> set b")
  case False
  with assms have "\<exists>n rest. b = replicate n CHR ''.'' @ rest \<and> CHR ''/'' \<notin> set rest
            \<and> CHR ''.'' \<notin> set rest"
    by (intro exI [of _ 0] exI [of _ b]) simp
  then show ?thesis by (rule disjI2)
next
  case True
  then obtain ys zs where b: "b = ys @ CHR ''.'' # zs" and z: "CHR ''.'' \<notin> set zs"
    by (auto dest: split_list_last)
  from assms b have sl: "CHR ''/'' \<notin> set ys \<and> CHR ''/'' \<notin> set zs" by simp
  show ?thesis
  proof (cases "\<exists>c \<in> set ys. c \<noteq> CHR ''.''")
    case True
    with b z sl have "\<exists>stem ext. b = stem @ ''.'' @ ext \<and> CHR ''/'' \<notin> set stem
        \<and> CHR ''/'' \<notin> set ext \<and> CHR ''.'' \<notin> set ext \<and> (\<exists>c \<in> set stem. c \<noteq> CHR ''.'')"
      by (intro exI [of _ ys] exI [of _ zs]) simp
    then show ?thesis by (rule disjI1)
  next
    case False
    then have "\<forall>c \<in> set ys. c = CHR ''.''" by simp
    then have "replicate (length ys) CHR ''.'' = ys" by (rule replicate_length_same)
    then obtain k where k: "ys = replicate k CHR ''.''" by metis
    have "b = replicate (Suc k) CHR ''.'' @ zs"
      unfolding b k by (simp add: replicate_app_Cons_same)
    with z sl have "\<exists>n rest. b = replicate n CHR ''.'' @ rest \<and> CHR ''/'' \<notin> set rest
            \<and> CHR ''.'' \<notin> set rest"
      by (intro exI [of _ "Suc k"] exI [of _ zs]) simp
    then show ?thesis by (rule disjI2)
  qed
qed

text \<open>
  C6. Every object name is a directory prefix (empty, or ending in a slash) followed by a
  base name without a slash. When the base name is a stem, a dot and an extension
  without a dot, and the stem has a character other than a dot, the base identifier is
  the stem: the extension is stripped. Otherwise the base name is some dots followed
  by characters other than a dot, and the base identifier is the whole base name. These two
  forms cover every object name. In both, the local video is the base name under
  \<open>/tmp/\<close>, the local audio the base identifier with \<open>.flac\<close> under \<open>/tmp/\<close>, and the
  remote keys are the base identifier under \<open>audio/\<close>, \<open>transcripts/\<close> and
  \<open>analysis/\<close>. The object name \<open>clip1.mp4\<close> yields \<open>audio/clip1.flac\<close>,
  \<open>transcripts/clip1.txt\<close> and \<open>analysis/clip1_analysis.txt\<close>.
\<close>

theorem C6_artifact_paths:
  "(\<exists>dir. file_name = dir @ basename file_name \<and> (dir = [] \<or> last dir = CHR ''/''))
   \<and> CHR ''/'' \<notin> set (basename file_name)
   \<and> basename file_name
        = fst (splitext (basename file_name)) @ snd (splitext (basename file_name))
   \<and> (snd (splitext (basename file_name)) = [] \<or>
        hd (snd (splitext (basename file_name))) = CHR ''.'' \<and>
        CHR ''.'' \<notin> set (tl (snd (splitext (basename file_name)))))
   \<and> resolve_paths file_name =
       \<lparr>local_video_path = ''/tmp/'' @ basename file_name,
        local_audio_path = ''/tmp/'' @ fst (splitext (basename file_name)) @ ''.flac'',
        gcs_audio_path = ''audio/'' @ fst (splitext (basename file_name)) @ ''.flac'',
        gcs_transcript_path = ''transcripts/'' @ fst (splitext (basename file_name)) @ ''.txt'',
        gcs_analysis_path =
          ''analysis/'' @ fst (splitext (basename file_name)) @ ''_analysis.txt''\<rparr>
   \<and> ((dir = [] \<or> last dir = CHR ''/'') \<and> CHR ''/'' \<notin> set stem \<and> CHR ''/'' \<notin> set ext
        \<and> CHR ''.'' \<notin> set ext \<and> (\<exists>c \<in> set stem. c \<noteq> CHR ''.'') \<longrightarrow>
       resolve_paths (dir @ stem @ ''.'' @ ext) =
         \<lparr>local_video_path = ''/tmp/'' @ stem @ ''.'' @ ext,
          local_audio_path = ''/tmp/'' @ stem @ ''.flac'',
          gcs_audio_path = ''audio/'' @ stem @ ''.flac'',
          gcs_transcript_path = ''transcripts/'' @ stem @ ''.txt'',
          gcs_analysis_path = ''analysis/'' @ stem @ ''_analysis.txt''\<rparr>)
   \<and> ((dir = [] \<or> last dir = CHR ''/'') \<and> CHR ''/'' \<notin> set rest \<and> CHR ''.'' \<notin> set rest \<longrightarrow>
       resolve_paths (dir @ replicate n CHR ''.'' @ rest) =
         \<lparr>local_video_path = ''/tmp/'' @ replicate n CHR ''.'' @ rest,
          local_audio_path = ''/tmp/'' @ replicate n CHR ''.'' @ rest @ ''.flac'',
          gcs_audio_path = ''audio/'' @ replicate n CHR ''.'' @ rest @ ''.flac'',
          gcs_transcript_path = ''transcripts/'' @ replicate n CHR ''.'' @ rest @ ''.txt'',
          gcs_analysis_path =
            ''analysis/'' @ replicate n CHR ''.'' @ rest @ ''_analysis.txt''\<rparr>)
   \<and> (\<exists>d. (d = [] \<or> last d = CHR ''/'') \<and>
        ((\<exists>st ex. file_name = d @ st @ ''.'' @ ex \<and> CHR ''/'' \<notin> set st \<and> CHR ''/'' \<notin> set ex
            \<and> CHR ''.'' \<notin> set ex \<and> (\<exists>c \<in> set st. c \<noteq> CHR ''.''))
         \<or> (\<exists>k r. file_name = d @ replicate k CHR ''.'' @ r \<and> CHR ''/'' \<notin> set r
            \<and> CHR ''.'' \<notin> set r)))
   \<and> resolve_paths ''clip1.mp4'' =
       \<lparr>local_video_path = ''/tmp/clip1.mp4'', local_audio_path = ''/tmp/clip1.flac'',
        gcs_audio_path = ''audio/clip1.flac'', gcs_transcript_path = ''transcripts/clip1.txt'',
        gcs_analysis_path = ''analysis/clip1_analysis.txt''\<rparr>"
proof -
  have ex: "resolve_paths ''clip1.mp4'' =
       \<lparr>local_video_path = ''/tmp/clip1.mp4'', local_audio_path = ''/tmp/clip1.flac'',
        gcs_audio_path = ''audio/clip1.flac'', gcs_transcript_path = ''transcripts/clip1.txt'',
        gcs_analysis_path = ''analysis/clip1_analysis.txt''\<rparr>"
    by (simp add: path_eval)
  have strip: "resolve_paths (dir @ stem @ ''.'' @ ext) =
         \<lparr>local_video_path = ''/tmp/'' @ stem @ ''.'' @ ext,
          local_audio_path = ''/tmp/'' @ stem @ ''.flac'',
          gcs_audio_path = ''audio/'' @ stem @ ''.flac'',
          gcs_transcript_path = ''transcripts/'' @ stem @ ''.txt'',
          gcs_analysis_path = ''analysis/'' @ stem @ ''_analysis.txt''\<rparr>"
    if h: "(dir = [] \<or> last dir = CHR ''/'') \<and> CHR ''/'' \<notin> set stem \<and> CHR ''/'' \<notin> set ext
        \<and> CHR ''.'' \<notin> set ext \<and> (\<exists>c \<in> set stem. c \<noteq> CHR ''.'')"
  proof -
    from h have "CHR ''/'' \<notin> set (stem @ CHR ''.'' # ext)" by simp
    with h have b: "basename (dir @ stem @ CHR ''.'' # ext) = stem @ CHR ''.'' # ext"
      by (intro basename_after_dir) simp_all
    from h have "splitext (stem @ CHR ''.'' # ext) = (stem, CHR ''.'' # ext)"
      by (intro splitext_extension) simp_all
    with b resolve_paths_shape [of "dir @ stem @ CHR ''.'' # ext"] show ?thesis by simp
  qed
  have keep: "resolve_paths (dir @ replicate n CHR ''.'' @ rest) =
         \<lparr>local_video_path = ''/tmp/'' @ replicate n CHR ''.'' @ rest,
          local_audio_path = ''/tmp/'' @ replicate n CHR ''.'' @ rest @ ''.flac'',
          gcs_audio_path = ''audio/'' @ replicate n CHR ''.'' @ rest @ ''.flac'',
          gcs_transcript_path = ''transcripts/'' @ replicate n CHR ''.'' @ rest @ ''.txt'',
          gcs_analysis_path =
            ''analysis/'' @ replicate n CHR ''.'' @ rest @ ''_analysis.txt''\<rparr>"
    if h: "(dir = [] \<or> last dir = CHR ''/'') \<and> CHR ''/'' \<notin> set rest \<and> CHR ''.'' \<notin> set rest"
  proof -
    from h have "CHR ''/'' \<notin> set (replicate n CHR ''.'' @ rest)" by auto
    with h have b: "basename (dir @ replicate n CHR ''.'' @ rest) = replicate n CHR ''.'' @ rest"
      by (intro basename_after_dir) simp_all
    from h have "splitext (replicate n CHR ''.'' @ rest) = (replicate n CHR ''.'' @ rest, [])"
      by (intro splitext_no_extension) simp_all
    with b resolve_paths_shape [of "dir @ replicate n CHR ''.'' @ rest"] show ?thesis by simp
  qed
  from basename_split [of file_name] obtain d where
    d: "file_name = d @ basename file_name" and dl: "d = [] \<or> last d = CHR ''/''" by blast
  let ?A = "\<lambda>d. \<exists>st ex. file_name = d @ st @ ''.'' @ ex \<and> CHR ''/'' \<notin> set st
            \<and> CHR ''/'' \<notin> set ex \<and> CHR ''.'' \<notin> set ex \<and> (\<exists>c \<in> set st. c \<noteq> CHR ''.'')"
  let ?B = "\<lambda>d. \<exists>k r. file_name = d @ replicate k CHR ''.'' @ r \<and> CHR ''/'' \<notin> set r
            \<and> CHR ''.'' \<notin> set r"
  from base_name_cases [OF basename_no_slash [of file_name]]
  have "?A d \<or> ?B d"
  proof
    assume "\<exists>stem ext. basename file_name = stem @ ''.'' @ ext \<and> CHR ''/'' \<notin> set stem
        \<and> CHR ''/'' \<notin> set ext \<and> CHR ''.'' \<notin> set ext \<and> (\<exists>c \<in> set stem. c \<noteq> CHR ''.'')"
    then obtain st ex where "basename file_name = st @ ''.'' @ ex" and "CHR ''/'' \<notin> set st"
      and "CHR ''/'' \<notin> set ex" and "CHR ''.'' \<notin> set ex" and "\<exists>c \<in> set st. c \<noteq> CHR ''.''"
      by blast
    with d have "?A d" by (intro exI [of _ st] exI [of _ ex]) simp
    then show ?thesis by (rule disjI1)
  next
    assume "\<exists>n rest. basename file_name = replicate n CHR ''.'' @ rest \<and> CHR ''/'' \<notin> set rest
        \<and> CHR ''.'' \<notin> set rest"
    then obtain k r where "basename file_name = replicate k CHR ''.'' @ r"
      and "CHR ''/'' \<notin> set r" and "CHR ''.'' \<notin> set r"
      by blast
    with d have "?B d" by (intro exI [of _ k] exI [of _ r]) simp
    then show ?thesis by (rule disjI2)
  qed
  with dl have cover: "\<exists>d. (d = [] \<or> last d = CHR ''/'') \<and> (?A d \<or> ?B d)"
    by (intro exI [of _ d] conjI)
  have split: "\<exists>dir. file_name = dir @ basename file_name \<and> (dir = [] \<or> last dir = CHR ''/'')"
    by (rule basename_split)
  have parts: "basename file_name
        = fst (splitext (basename file_name)) @ snd (splitext (basename file_name))
     \<and> (snd (splitext (basename file_name)) = [] \<or>
        hd (snd (splitext (basename file_name))) = CHR ''.'' \<and>
        CHR ''.'' \<notin> set (tl (snd (splitext (basename file_name)))))"
    using splitext_parts [of "basename file_name"] by simp
  show ?thesis
    using split basename_no_slash [of file_name] parts resolve_paths_shape [of file_name]
      strip keep cover ex
    by (intro conjI impI) (simp_all only: simp_thms)
qed

theorem C6_artifact_paths_witness:
  "last ''calls/2024/'' = CHR ''/'' \<and> CHR ''/'' \<notin> set ''clip.v2'' \<and> CHR ''/'' \<notin> set ''mp4''
   \<and> CHR ''.'' \<notin> set ''mp4'' \<and> (\<exists>c \<in> set ''clip.v2''. c \<noteq> CHR ''.'')
   \<and> resolve_paths ''calls/2024/clip.v2.mp4'' =
       \<lparr>local_video_path = ''/tmp/clip.v2.mp4'', local_audio_path = ''/tmp/clip.v2.flac'',
        gcs_audio_path = ''audio/clip.v2.flac'',
        gcs_transcript_path = ''transcripts/clip.v2.txt'',
        gcs_analysis_path = ''analysis/clip.v2_analysis.txt''\<rparr>
   \<and> CHR ''/'' \<notin> set ''hidden'' \<and> CHR ''.'' \<notin> set ''hidden''
   \<and> resolve_paths ''calls/2024/.hidden'' =
       \<lparr>local_video_path = ''/tmp/.hidden'', local_audio_path = ''/tmp/.hidden.flac'',
        gcs_audio_path = ''audio/.hidden.flac'',
        gcs_transcript_path = ''transcripts/.hidden.txt'',
        gcs_analysis_path = ''analysis/.hidden_analysis.txt''\<rparr>"
proof -
  have h1: "(''calls/2024/'' = [] \<or> last ''calls/2024/'' = CHR ''/'') \<and> CHR ''/'' \<notin> set ''clip.v2''
      \<and> CHR ''/'' \<notin> set ''mp4'' \<and> CHR ''.'' \<notin> set ''mp4'' \<and> (\<exists>c \<in> set ''clip.v2''. c \<noteq> CHR ''.'')"
    by simp
  have h2: "(''calls/2024/'' = [] \<or> last ''calls/2024/'' = CHR ''/'') \<and> CHR ''/'' \<notin> set ''hidden''
      \<and> CHR ''.'' \<notin> set ''hidden''"
    by simp
  note c6 = C6_artifact_paths [of "[]" "''calls/2024/''" "''clip.v2''" "''mp4''" "''hidden''" 1]
  from c6 h1 have "resolve_paths (''calls/2024/'' @ ''clip.v2'' @ ''.'' @ ''mp4'') =
         \<lparr>local_video_path = ''/tmp/'' @ ''clip.v2'' @ ''.'' @ ''mp4'',
          local_audio_path = ''/tmp/'' @ ''clip.v2'' @ ''.flac'',
          gcs_audio_path = ''audio/'' @ ''clip.v2'' @ ''.flac'',
          gcs_transcript_path = ''transcripts/'' @ ''clip.v2'' @ ''.txt'',
          gcs_analysis_path = ''analysis/'' @ ''clip.v2'' @ ''_analysis.txt''\<rparr>"
    by blast
  moreover from c6 h2 have "resolve_paths (''calls/2024/'' @ replicate 1 CHR ''.'' @ ''hidden'') =
         \<lparr>local_video_path = ''/tmp/'' @ replicate 1 CHR ''.'' @ ''hidden'',
          local_audio_path = ''/tmp/'' @ replicate 1 CHR ''.'' @ ''hidden'' @ ''.flac'',
          gcs_audio_path = ''audio/'' @ replicate 1 CHR ''.'' @ ''hidden'' @ ''.flac'',
          gcs_transcript_path = ''transcripts/'' @ replicate 1 CHR ''.'' @ ''hidden'' @ ''.txt'',
          gcs_analysis_path =
            ''analysis/'' @ replicate 1 CHR ''.'' @ ''hidden'' @ ''_analysis.txt''\<rparr>"
    by blast
  ultimately show ?thesis by simp
qed

section \<open>Evaluating a run\<close>

text \<open>
  The equations that unfold a run on concrete inputs, and the run of the event
  \<open>clip1.mp4\<close> in a world where recognition answers with no result.
\<close>

lemmas step_eval = then_do_def emit_def emit_all_def answer_def answer_fs_def getsize_def
  download_video_def ffmpeg_command_def on_called_process_error_def extract_audio_def
  upload_audio_def audio_uri_def recognize_def reconstruct_def save_transcript_def
  full_prompt_def prompt_logs_def analyze_def save_analysis_def pipeline_body_def
  with_handlers_def os_remove_def remove_if_exists_def cleanup_def try_finally_def
  write_file_def environ_get_def INPUT_VIDEO_BUCKET_def
  TRANSCRIPTION_OUTPUT_BUCKET_def credential_missing_def received_logs_def
  transcribe_video_from_gcs_def effects_def removals_def

lemmas world_eval = demo_world_def clip_event_def start_def

lemma run_empty_results:
  "effects (trace (fst (transcribe_video_from_gcs (demo_world []) ''Analyze.'' clip_event start)))
   = [Download ''in'' ''clip1.mp4'' ''/tmp/clip1.mp4'',
  Ffmpeg
   [''ffmpeg'', ''-i'', ''/tmp/clip1.mp4'', ''-vn'', ''-acodec'', ''flac'',
    ''-ar'', ''16000'', ''-ac'', ''1'', ''/tmp/clip1.flac''],
  UploadFile ''out'' ''audio/clip1.flac'' ''/tmp/clip1.flac'',
  Recognize ''gs://out/audio/clip1.flac'',
  UploadString ''out'' ''transcripts/clip1.txt'' '''',
  Generate ''key'' ''gemini-2.5-pro''
   ''Analyze.\<newline>\<newline>Transcript:\<newline>'',
  UploadString ''out'' ''analysis/clip1_analysis.txt'' ''analysis'',
  Remove ''/tmp/clip1.mp4'', Remove ''/tmp/clip1.flac'']"
  by (simp add: demo_world_def clip_event_def start_def step_eval path_eval transcript_eval
     no_results_log_def empty_transcript_log_def)

section \<open>Claims about the checks at the start of a run\<close>

text \<open>
  C4. When GEMINI_API_KEY is unset or empty, the run logs the error and raises
  \<open>ValueError("GEMINI_API_KEY is required.")\<close>: beyond the three log records the
  trace is unchanged, so no collaborator is called and no stage runs, and the scratch
  directory is untouched.
\<close>

theorem C4_missing_credential:
  assumes "environ w ''GEMINI_API_KEY'' = None \<or> environ w ''GEMINI_API_KEY'' = Some []"
  shows "transcribe_video_from_gcs w instr ev s =
      (s\<lparr>trace := trace s @ received_logs @
            [Log ERROR ''GEMINI_API_KEY environment variable not set.'']\<rparr>,
       Inl (ValueError ''GEMINI_API_KEY is required.''))
    \<and> effects (trace (fst (transcribe_video_from_gcs w instr ev s))) = effects (trace s)
    \<and> fs (fst (transcribe_video_from_gcs w instr ev s)) = fs s"
  using assms
  by (simp add: transcribe_video_from_gcs_def credential_missing_def Let_def effects_def
      received_logs_def)

theorem C4_missing_credential_witness:
  "environ no_key_world ''GEMINI_API_KEY'' = None
   \<and> transcribe_video_from_gcs no_key_world ''Analyze.'' clip_event start =
      (\<lparr>fs = Map.empty, trace = [Log INFO ''Received upload event for file'', Log INFO ''MIME type'',
            Log ERROR ''GEMINI_API_KEY environment variable not set.'']\<rparr>,
       Inl (ValueError ''GEMINI_API_KEY is required.''))"
proof -
  have h: "environ no_key_world ''GEMINI_API_KEY'' = None"
    by (simp add: world_eval no_key_world_def)
  then have "environ no_key_world ''GEMINI_API_KEY'' = None
      \<or> environ no_key_world ''GEMINI_API_KEY'' = Some []" by simp
  from C4_missing_credential [OF this, of "''Analyze.''" clip_event start] h
  show ?thesis by (simp add: start_def received_logs_def)
qed

text \<open>
  C5, as stated, fails: for an event from another bucket, with a content type that is not
  a video, and no LLM credential in the environment, the run does not end as a skip: it
  raises the ValueError of the credential check.
\<close>

theorem C5_counterexample:
  "bucket other_event \<noteq> INPUT_VIDEO_BUCKET no_key_world
   \<and> \<not> startswith (contentType other_event) ''video/''
   \<and> snd (transcribe_video_from_gcs no_key_world ''Analyze.'' other_event start)
       = Inl (ValueError ''GEMINI_API_KEY is required.'')
   \<and> snd (transcribe_video_from_gcs no_key_world ''Analyze.'' other_event start) \<noteq> Inr ()"
  by (simp add: world_eval no_key_world_def other_event_def transcribe_video_from_gcs_def
      credential_missing_def Let_def INPUT_VIDEO_BUCKET_def environ_get_def startswith_def)

text \<open>
  C5, amended. For every event whose bucket differs from the configured input bucket, and
  for every event whose content type does not start with \<open>video/\<close>, the run calls no
  collaborator, removes nothing and leaves the scratch directory as it was; when the LLM
  credential is set, it returns normally (a skip, not an error).
\<close>

theorem C5_skip_without_effects:
  assumes "bucket ev \<noteq> INPUT_VIDEO_BUCKET w \<or> \<not> startswith (contentType ev) ''video/''"
  shows "effects (trace (fst (transcribe_video_from_gcs w instr ev s))) = effects (trace s)
    \<and> fs (fst (transcribe_video_from_gcs w instr ev s)) = fs s
    \<and> (\<not> credential_missing w \<longrightarrow> snd (transcribe_video_from_gcs w instr ev s) = Inr ())"
  using assms
  by (auto simp: transcribe_video_from_gcs_def Let_def effects_def received_logs_def)

theorem C5_skip_without_effects_witness:
  "bucket other_event \<noteq> INPUT_VIDEO_BUCKET (demo_world [])
   \<and> \<not> credential_missing (demo_world [])
   \<and> effects (trace (fst (transcribe_video_from_gcs (demo_world []) ''Analyze.'' other_event start))) = []
   \<and> snd (transcribe_video_from_gcs (demo_world []) ''Analyze.'' other_event start) = Inr ()"
proof -
  have h: "bucket other_event \<noteq> INPUT_VIDEO_BUCKET (demo_world [])"
    by (simp add: world_eval other_event_def INPUT_VIDEO_BUCKET_def environ_get_def)
  have c: "\<not> credential_missing (demo_world [])"
    by (simp add: world_eval other_event_def credential_missing_def)
  from h have "bucket other_event \<noteq> INPUT_VIDEO_BUCKET (demo_world [])
      \<or> \<not> startswith (contentType other_event) ''video/''" by simp
  from C5_skip_without_effects [OF this, of "''Analyze.''" start] h c
  show ?thesis by (simp add: start_def effects_def)
qed

text \<open>
  C10. The credential check comes first: for every event from an unexpected bucket or with
  a content type that is not a video, a run without the LLM credential raises the
  ValueError; it does not return normally, and it logs the error of the credential check
  and neither of the two skip warnings. With a credential in the environment, everything
  else being equal, the same event is skipped: the run returns normally and calls no
  collaborator, the LLM included.
\<close>

theorem C10_credential_check_first:
  assumes "credential_missing w"
    and "bucket ev \<noteq> INPUT_VIDEO_BUCKET w \<or> \<not> startswith (contentType ev) ''video/''"
  shows "snd (transcribe_video_from_gcs w instr ev s)
       = Inl (ValueError ''GEMINI_API_KEY is required.'')
    \<and> snd (transcribe_video_from_gcs w instr ev s) \<noteq> Inr ()
    \<and> trace (fst (transcribe_video_from_gcs w instr ev s)) =
        trace s @ received_logs @ [Log ERROR ''GEMINI_API_KEY environment variable not set.'']
    \<and> snd (transcribe_video_from_gcs
             (w\<lparr>environ := (environ w)(''GEMINI_API_KEY'' \<mapsto> c # cs)\<rparr>) instr ev s) = Inr ()
    \<and> effects (trace (fst (transcribe_video_from_gcs
             (w\<lparr>environ := (environ w)(''GEMINI_API_KEY'' \<mapsto> c # cs)\<rparr>) instr ev s)))
        = effects (trace s)"
proof -
  let ?w' = "w\<lparr>environ := (environ w)(''GEMINI_API_KEY'' \<mapsto> c # cs)\<rparr>"
  have 1: "snd (transcribe_video_from_gcs w instr ev s)
       = Inl (ValueError ''GEMINI_API_KEY is required.'')
    \<and> snd (transcribe_video_from_gcs w instr ev s) \<noteq> Inr ()
    \<and> trace (fst (transcribe_video_from_gcs w instr ev s)) =
        trace s @ received_logs @ [Log ERROR ''GEMINI_API_KEY environment variable not set.'']"
    using assms(1) by (simp add: transcribe_video_from_gcs_def Let_def)
  have c: "\<not> credential_missing ?w'"
    by (simp add: credential_missing_def)
  have b: "INPUT_VIDEO_BUCKET ?w' = INPUT_VIDEO_BUCKET w"
    by (simp add: INPUT_VIDEO_BUCKET_def environ_get_def)
  have 2: "snd (transcribe_video_from_gcs ?w' instr ev s) = Inr ()
    \<and> effects (trace (fst (transcribe_video_from_gcs ?w' instr ev s))) = effects (trace s)"
    using assms(2) c b
    by (auto simp: transcribe_video_from_gcs_def Let_def effects_def received_logs_def)
  from 1 2 show ?thesis by blast
qed

theorem C10_credential_check_first_witness:
  "credential_missing no_key_world
   \<and> bucket other_event \<noteq> INPUT_VIDEO_BUCKET no_key_world
   \<and> snd (transcribe_video_from_gcs no_key_world ''Analyze.'' other_event start)
       = Inl (ValueError ''GEMINI_API_KEY is required.'')"
proof -
  have c: "credential_missing no_key_world"
    by (simp add: world_eval no_key_world_def other_event_def credential_missing_def)
  have h: "bucket other_event \<noteq> INPUT_VIDEO_BUCKET no_key_world"
    by (simp add: world_eval no_key_world_def other_event_def INPUT_VIDEO_BUCKET_def
        environ_get_def)
  then have "bucket other_event \<noteq> INPUT_VIDEO_BUCKET no_key_world
      \<or> \<not> startswith (contentType other_event) ''video/''" by simp
  from C10_credential_check_first [OF c this, of "''Analyze.''" start] c h
  show ?thesis by simp
qed

section \<open>The trace of the pipeline body\<close>

text \<open>
  Every stage of the pipeline body only appends to the trace, and appends no removal;
  the property is kept by sequencing and by the exception handlers.
\<close>

lemma no_removalI:
  "(\<And>s. \<exists>tr. trace (fst (m s)) = trace s @ tr \<and> removals tr = []) \<Longrightarrow> no_removal m"
  by (simp add: no_removal_def)

lemma no_removalD:
  "no_removal m \<Longrightarrow> \<exists>tr. trace (fst (m s)) = trace s @ tr \<and> removals tr = []"
  by (simp add: no_removal_def)

lemma removals_append: "removals (xs @ ys) = removals xs @ removals ys"
  by (simp add: removals_def)

lemma no_removal_emit: "\<not> is_remove e \<Longrightarrow> no_removal (emit e)"
  by (rule no_removalI) (simp add: emit_def removals_def)

lemma no_removal_emit_all: "removals es = [] \<Longrightarrow> no_removal (emit_all es)"
  by (rule no_removalI) (simp add: emit_all_def)

lemma no_removal_answer: "no_removal (answer r)"
  by (rule no_removalI) (simp add: answer_def removals_def)

lemma no_removal_answer_fs: "no_removal (answer_fs f)"
  by (rule no_removalI) (simp add: answer_fs_def removals_def split: prod.splits option.splits)

lemma no_removal_getsize: "no_removal (getsize path)"
  by (rule no_removalI) (simp add: getsize_def removals_def split: option.splits entry.splits)

lemma no_removal_pure: "no_removal (\<lambda>s. (s, r s))"
  by (rule no_removalI) (simp add: removals_def)

lemma no_removal_then_do:
  assumes "no_removal m" and "\<And>x. no_removal (f x)"
  shows "no_removal (then_do m f)"
proof (rule no_removalI)
  fix s
  obtain s' r where ms: "m s = (s', r)" by (cases "m s")
  from no_removalD [OF assms(1), of s] ms
  obtain tr1 where t1: "trace s' = trace s @ tr1" and r1: "removals tr1 = []" by auto
  show "\<exists>tr. trace (fst (then_do m f s)) = trace s @ tr \<and> removals tr = []"
  proof (cases r)
    case (Inl e)
    with ms t1 r1 show ?thesis by (simp add: then_do_def)
  next
    case (Inr x)
    from no_removalD [OF assms(2), of x s']
    obtain tr2 where "trace (fst (f x s')) = trace s' @ tr2" and "removals tr2 = []" by auto
    with ms t1 r1 Inr have "trace (fst (then_do m f s)) = trace s @ (tr1 @ tr2)
        \<and> removals (tr1 @ tr2) = []"
      by (simp add: then_do_def removals_append)
    then show ?thesis by blast
  qed
qed

lemma no_removal_on_called_process_error:
  assumes "no_removal m"
  shows "no_removal (on_called_process_error m)"
proof (rule no_removalI)
  fix s
  obtain s' r where ms: "m s = (s', r)" by (cases "m s")
  from no_removalD [OF assms, of s] ms
  obtain tr1 where t1: "trace s' = trace s @ tr1" and r1: "removals tr1 = []" by auto
  have "trace (fst (on_called_process_error m s)) = trace s @ tr1
      \<or> trace (fst (on_called_process_error m s))
           = trace s @ (tr1 @ [Log ERROR ''FFmpeg command failed''])"
    using ms t1 by (auto simp: on_called_process_error_def split: sum.splits exn.splits)
  moreover have "removals (tr1 @ [Log ERROR ''FFmpeg command failed'']) = []"
    using r1 by (simp add: removals_def)
  ultimately show "\<exists>tr. trace (fst (on_called_process_error m s)) = trace s @ tr
      \<and> removals tr = []"
    using r1 by blast
qed

lemma no_removal_with_handlers:
  assumes "no_removal m"
  shows "no_removal (with_handlers m)"
proof (rule no_removalI)
  fix s
  obtain s' r where ms: "m s = (s', r)" by (cases "m s")
  from no_removalD [OF assms, of s] ms
  obtain tr1 where t1: "trace s' = trace s @ tr1" and r1: "removals tr1 = []" by auto
  have "trace (fst (with_handlers m s)) = trace s @ tr1
      \<or> trace (fst (with_handlers m s))
           = trace s @ (tr1 @ [Log ERROR ''Error during transcription or analysis process''])"
    using ms t1 by (auto simp: with_handlers_def split: sum.splits exn.splits)
  moreover have
    "removals (tr1 @ [Log ERROR ''Error during transcription or analysis process'']) = []"
    using r1 by (simp add: removals_def)
  ultimately show "\<exists>tr. trace (fst (with_handlers m s)) = trace s @ tr \<and> removals tr = []"
    using r1 by blast
qed

text \<open>The log of the reconstruction.\<close>

lemma removals_logs: "list_all is_log tr \<Longrightarrow> removals tr = []"
  by (induction tr) (auto simp: removals_def elim: is_log.elims)

lemma no_removal_reconstruct: "no_removal (reconstruct rs)"
proof (rule no_removalI)
  fix s
  obtain lg r where bt: "build_transcript rs = (lg, r)" by (cases "build_transcript rs")
  with build_transcript_logs [of rs] have "removals lg = []" by (simp add: removals_logs)
  with bt show "\<exists>tr. trace (fst (reconstruct rs s)) = trace s @ tr \<and> removals tr = []"
    by (simp add: reconstruct_def)
qed

lemma no_removal_download_video: "no_removal (download_video w ev p)"
  unfolding download_video_def
  by (intro no_removal_then_do no_removal_emit no_removal_answer_fs no_removal_getsize) simp_all

lemma no_removal_extract_audio: "no_removal (extract_audio w p)"
  unfolding extract_audio_def
  by (intro no_removal_then_do no_removal_on_called_process_error no_removal_emit
      no_removal_emit_all no_removal_answer_fs no_removal_getsize)
    (simp_all add: removals_def no_removal_emit no_removal_answer)

lemma no_removal_upload_audio: "no_removal (upload_audio w ob p)"
  unfolding upload_audio_def
  by (intro no_removal_then_do no_removal_emit no_removal_pure) simp_all

lemma no_removal_recognize: "no_removal (recognize w ob p)"
  unfolding recognize_def
  by (intro no_removal_then_do no_removal_emit no_removal_answer) simp_all

lemma no_removal_save_transcript: "no_removal (save_transcript w ob p tc)"
  unfolding save_transcript_def
  by (intro no_removal_then_do no_removal_emit no_removal_answer) simp_all

lemma prompt_logs_removals: "removals (prompt_logs prompt) = []"
  by (simp add: prompt_logs_def removals_def)

lemma no_removal_analyze: "no_removal (analyze w instr key tc)"
  unfolding analyze_def Let_def
  by (intro no_removal_then_do no_removal_emit no_removal_emit_all no_removal_answer)
    (simp_all add: prompt_logs_removals, simp_all add: removals_def)

lemma no_removal_save_analysis: "no_removal (save_analysis w ob p ac)"
  unfolding save_analysis_def
  by (intro no_removal_then_do no_removal_emit no_removal_answer) simp_all

lemma no_removal_pipeline_body: "no_removal (pipeline_body w instr ob key ev p)"
  unfolding pipeline_body_def
  by (intro no_removal_then_do no_removal_download_video no_removal_extract_audio
      no_removal_upload_audio no_removal_recognize no_removal_reconstruct
      no_removal_save_transcript no_removal_analyze no_removal_save_analysis)

lemma then_do_keeps_prefix:
  assumes "\<exists>tr. trace (fst (m s)) = X @ tr" and "\<And>x. no_removal (f x)"
  shows "\<exists>tr. trace (fst (then_do m f s)) = X @ tr"
proof -
  obtain s' r where ms: "m s = (s', r)" by (cases "m s")
  with assms(1) obtain tr1 where t1: "trace s' = X @ tr1" by auto
  show ?thesis
  proof (cases r)
    case (Inl e)
    with ms t1 show ?thesis by (simp add: then_do_def)
  next
    case (Inr x)
    from no_removalD [OF assms(2), of x s']
    obtain tr2 where "trace (fst (f x s')) = trace s' @ tr2" by auto
    with ms t1 Inr have "trace (fst (then_do m f s)) = X @ (tr1 @ tr2)"
      by (simp add: then_do_def)
    then show ?thesis by blast
  qed
qed

lemma with_handlers_keeps_prefix:
  assumes "\<exists>tr. trace (fst (m s)) = X @ tr"
  shows "\<exists>tr. trace (fst (with_handlers m s)) = X @ tr"
proof -
  obtain s' r where ms: "m s = (s', r)" by (cases "m s")
  with assms obtain tr1 where t1: "trace s' = X @ tr1" by auto
  have "trace (fst (with_handlers m s)) = X @ tr1
      \<or> trace (fst (with_handlers m s))
           = X @ (tr1 @ [Log ERROR ''Error during transcription or analysis process''])"
    using ms t1 by (auto simp: with_handlers_def split: sum.splits exn.splits)
  then show ?thesis by blast
qed

lemma then_do_emit: "then_do (emit e) f s = f () (s\<lparr>trace := trace s @ [e]\<rparr>)"
  by (simp add: then_do_def emit_def)

lemma download_video_starts:
  "\<exists>tr. trace (fst (download_video w ev p s)) =
     (trace s @ [Log INFO ''Downloading'',
                 Download (bucket ev) (name ev) (local_video_path p)]) @ tr"
proof -
  let ?K = "then_do (answer_fs
       (download_to_filename w (bucket ev) (name ev) (local_video_path p))) (\<lambda>_.
     then_do (getsize (local_video_path p)) (\<lambda>_.
     emit (Log INFO ''Successfully downloaded'')))"
  let ?s2 = "s\<lparr>trace := trace s @ [Log INFO ''Downloading'',
                 Download (bucket ev) (name ev) (local_video_path p)]\<rparr>"
  have "no_removal ?K"
    by (intro no_removal_then_do no_removal_emit no_removal_answer_fs no_removal_getsize)
      simp_all
  from no_removalD [OF this, of ?s2]
  obtain tr where "trace (fst (?K ?s2)) = trace ?s2 @ tr" by auto
  moreover have "download_video w ev p s = ?K ?s2"
    by (simp add: download_video_def then_do_emit)
  ultimately show ?thesis by auto
qed

lemma pipeline_body_starts:
  "\<exists>tr. trace (fst (pipeline_body w instr ob key ev p s)) =
     (trace s @ [Log INFO ''Downloading'',
                 Download (bucket ev) (name ev) (local_video_path p)]) @ tr"
  unfolding pipeline_body_def
  by (intro then_do_keeps_prefix download_video_starts no_removal_then_do
      no_removal_extract_audio no_removal_upload_audio no_removal_recognize
      no_removal_reconstruct no_removal_save_transcript no_removal_analyze
      no_removal_save_analysis)

lemma guarded_body_removes_nothing:
  "removals (trace (fst (with_handlers (pipeline_body w instr ob key ev p) s)))
     = removals (trace s)"
proof -
  have "no_removal (with_handlers (pipeline_body w instr ob key ev p))"
    by (intro no_removal_with_handlers no_removal_pipeline_body)
  from no_removalD [OF this, of s]
  obtain tr where "trace (fst (with_handlers (pipeline_body w instr ob key ev p) s))
      = trace s @ tr" and "removals tr = []" by auto
  then show ?thesis by (simp add: removals_append)
qed

lemma remove_if_exists_trace: "\<exists>tr. trace (fst (remove_if_exists path s)) = trace s @ tr"
  by (auto simp: remove_if_exists_def os_remove_def then_do_def emit_def
      split: option.splits entry.splits)

lemma cleanup_trace: "\<exists>tr. trace (fst (cleanup p s)) = trace s @ tr"
proof -
  obtain s1 r where f: "remove_if_exists (local_video_path p) s = (s1, r)"
    by (cases "remove_if_exists (local_video_path p) s")
  with remove_if_exists_trace [of "local_video_path p" s]
  obtain tr1 where t1: "trace s1 = trace s @ tr1" by auto
  show ?thesis
  proof (cases r)
    case (Inl e)
    with f t1 show ?thesis by (simp add: cleanup_def then_do_def)
  next
    case (Inr u)
    from remove_if_exists_trace [of "local_audio_path p" s1]
    obtain tr2 where "trace (fst (remove_if_exists (local_audio_path p) s1)) = trace s1 @ tr2"
      by auto
    with f t1 Inr have "trace (fst (cleanup p s)) = trace s @ (tr1 @ tr2)"
      by (simp add: cleanup_def then_do_def)
    then show ?thesis by blast
  qed
qed

lemma try_finally_keeps_prefix:
  assumes "\<exists>tr. trace (fst (m s)) = X @ tr"
    and "\<And>s'. \<exists>tr. trace (fst (c s')) = trace s' @ tr"
  shows "\<exists>tr. trace (fst (try_finally m c s)) = X @ tr"
proof -
  obtain s1 r where ms: "m s = (s1, r)" by (cases "m s")
  with assms(1) obtain tr1 where t1: "trace s1 = X @ tr1" by auto
  obtain s2 r2 where cs: "c s1 = (s2, r2)" by (cases "c s1")
  with assms(2) [of s1] obtain tr2 where "trace s2 = trace s1 @ tr2" by auto
  with t1 have t2: "trace s2 = X @ (tr1 @ tr2)" by simp
  have "fst (try_finally m c s) = s2"
    using ms cs by (simp add: try_finally_def split: sum.splits)
  with t2 show ?thesis by blast
qed

text \<open>The cleanup on regular files, and on a video path that denotes a directory.\<close>

lemma cleanup_regular_files:
  assumes "\<forall>n. fs s (local_video_path p) \<noteq> Some (Directory n)"
    and "\<forall>n. fs s (local_audio_path p) \<noteq> Some (Directory n)"
  shows "snd (cleanup p s) = Inr ()
    \<and> fs (fst (cleanup p s)) = (fs s)(local_video_path p := None, local_audio_path p := None)"
  using assms
  by (auto simp: cleanup_def remove_if_exists_def os_remove_def then_do_def emit_def
      split: option.splits entry.splits)

lemma cleanup_directory:
  "fs s (local_video_path p) = Some (Directory n) \<Longrightarrow> cleanup p s = (s, Inl IsADirectoryError)"
  by (simp add: cleanup_def remove_if_exists_def os_remove_def then_do_def)

text \<open>
  An ordinary failure: the transcoder fails for \<open>clip1.mp4\<close>. The outer handler raises
  AttributeError, and the cleanup removes both local files.
\<close>

lemma failed_transcode_is_cleaned_up:
  "snd (transcribe_video_from_gcs failing_world ''Analyze.'' clip_event scratch_start)
        = Inl AttributeError
   \<and> removals (trace (fst
        (transcribe_video_from_gcs failing_world ''Analyze.'' clip_event scratch_start)))
        = [Remove ''/tmp/clip1.mp4'', Remove ''/tmp/clip1.flac'']
   \<and> fs (fst (transcribe_video_from_gcs failing_world ''Analyze.'' clip_event scratch_start))
        = [''/tmp/'' \<mapsto> Directory 4096]"
  by (auto simp: world_eval failing_world_def scratch_start_def step_eval path_eval)

section \<open>Claims about path resolution in a run, and about the cleanup\<close>

text \<open>
  C7, as stated, fails: the empty object name is resolved like every other name, to the
  paths \<open>/tmp/\<close>, \<open>/tmp/.flac\<close>, \<open>audio/.flac\<close>, \<open>transcripts/.txt\<close> and
  \<open>analysis/_analysis.txt\<close>, and so is the name \<open>videos/\<close>, whose base name is empty. No
  validation error is signalled: the run for the event \<open>videos/\<close> goes on to the download,
  called with the local path \<open>/tmp/\<close>, and the exception it ends with is
  IsADirectoryError, not the ValueError of a validation.
\<close>

theorem C7_counterexample:
  "resolve_paths [] =
     \<lparr>local_video_path = ''/tmp/'', local_audio_path = ''/tmp/.flac'',
      gcs_audio_path = ''audio/.flac'', gcs_transcript_path = ''transcripts/.txt'',
      gcs_analysis_path = ''analysis/_analysis.txt''\<rparr>
   \<and> resolve_paths ''videos/'' =
     \<lparr>local_video_path = ''/tmp/'', local_audio_path = ''/tmp/.flac'',
      gcs_audio_path = ''audio/.flac'', gcs_transcript_path = ''transcripts/.txt'',
      gcs_analysis_path = ''analysis/_analysis.txt''\<rparr>
   \<and> hd (effects (trace (fst
        (transcribe_video_from_gcs (demo_world []) ''Analyze.'' folder_event scratch_start))))
       = Download ''in'' ''videos/'' ''/tmp/''
   \<and> snd (transcribe_video_from_gcs (demo_world []) ''Analyze.'' folder_event scratch_start)
       = Inl IsADirectoryError"
  by (simp add: world_eval folder_event_def scratch_start_def step_eval path_eval)

text \<open>
  C7, amended. Path resolution is a pure and total function: it fails on no object name. For
  every event that passes the credential, bucket and content-type checks, whatever its
  object name, the run goes on to the download, called with the resolved local video path.
  The empty name, and a name that ends in a slash, resolve to an empty base identifier.
\<close>

theorem C7_paths_never_fail:
  assumes "\<not> credential_missing w" and "bucket ev = INPUT_VIDEO_BUCKET w"
    and "startswith (contentType ev) ''video/''"
  shows "(\<exists>tr. trace (fst (transcribe_video_from_gcs w instr ev s)) =
       (trace s @ received_logs @
        [Log INFO ''Downloading'',
         Download (bucket ev) (name ev) (local_video_path (resolve_paths (name ev)))]) @ tr)
    \<and> resolve_paths [] =
       \<lparr>local_video_path = ''/tmp/'', local_audio_path = ''/tmp/.flac'',
        gcs_audio_path = ''audio/.flac'', gcs_transcript_path = ''transcripts/.txt'',
        gcs_analysis_path = ''analysis/_analysis.txt''\<rparr>
    \<and> resolve_paths ''videos/'' =
       \<lparr>local_video_path = ''/tmp/'', local_audio_path = ''/tmp/.flac'',
        gcs_audio_path = ''audio/.flac'', gcs_transcript_path = ''transcripts/.txt'',
        gcs_analysis_path = ''analysis/_analysis.txt''\<rparr>"
proof -
  let ?p = "resolve_paths (name ev)"
  let ?s0 = "s\<lparr>trace := trace s @ received_logs\<rparr>"
  let ?body = "with_handlers (pipeline_body w instr (TRANSCRIPTION_OUTPUT_BUCKET w)
                   (the (environ w ''GEMINI_API_KEY'')) ev ?p)"
  let ?X = "trace s @ received_logs @
        [Log INFO ''Downloading'', Download (bucket ev) (name ev) (local_video_path ?p)]"
  have "\<exists>tr. trace (fst (pipeline_body w instr (TRANSCRIPTION_OUTPUT_BUCKET w)
                   (the (environ w ''GEMINI_API_KEY'')) ev ?p ?s0)) = ?X @ tr"
    using pipeline_body_starts [of w instr "TRANSCRIPTION_OUTPUT_BUCKET w"
        "the (environ w ''GEMINI_API_KEY'')" ev ?p ?s0] by simp
  then have "\<exists>tr. trace (fst (?body ?s0)) = ?X @ tr"
    by (rule with_handlers_keeps_prefix)
  then have "\<exists>tr. trace (fst (try_finally ?body (cleanup ?p) ?s0)) = ?X @ tr"
    by (rule try_finally_keeps_prefix) (rule cleanup_trace)
  moreover have "transcribe_video_from_gcs w instr ev s = try_finally ?body (cleanup ?p) ?s0"
    using assms by (simp add: transcribe_video_from_gcs_def Let_def)
  ultimately have "\<exists>tr. trace (fst (transcribe_video_from_gcs w instr ev s)) = ?X @ tr"
    by simp
  moreover have "resolve_paths [] =
       \<lparr>local_video_path = ''/tmp/'', local_audio_path = ''/tmp/.flac'',
        gcs_audio_path = ''audio/.flac'', gcs_transcript_path = ''transcripts/.txt'',
        gcs_analysis_path = ''analysis/_analysis.txt''\<rparr>"
    by (simp add: path_eval)
  moreover have "resolve_paths ''videos/'' =
       \<lparr>local_video_path = ''/tmp/'', local_audio_path = ''/tmp/.flac'',
        gcs_audio_path = ''audio/.flac'', gcs_transcript_path = ''transcripts/.txt'',
        gcs_analysis_path = ''analysis/_analysis.txt''\<rparr>"
    by (simp add: path_eval)
  ultimately show ?thesis by simp
qed

theorem C7_paths_never_fail_witness:
  "\<not> credential_missing (demo_world []) \<and> bucket folder_event = INPUT_VIDEO_BUCKET (demo_world [])
   \<and> startswith (contentType folder_event) ''video/''
   \<and> (\<exists>tr. trace (fst (transcribe_video_from_gcs (demo_world []) ''Analyze.'' folder_event
            scratch_start)) =
        [Log INFO ''Received upload event for file'', Log INFO ''MIME type'',
         Log INFO ''Downloading'', Download ''in'' ''videos/'' ''/tmp/''] @ tr)"
proof -
  have h1: "\<not> credential_missing (demo_world [])"
    by (simp add: world_eval credential_missing_def)
  have h2: "bucket folder_event = INPUT_VIDEO_BUCKET (demo_world [])"
    by (simp add: world_eval folder_event_def INPUT_VIDEO_BUCKET_def environ_get_def)
  have h3: "startswith (contentType folder_event) ''video/''"
    by (simp add: folder_event_def startswith_def)
  have p: "local_video_path (resolve_paths (name folder_event)) = ''/tmp/''"
    by (simp add: folder_event_def path_eval)
  from C7_paths_never_fail [OF h1 h2 h3, of "''Analyze.''" scratch_start]
  have "\<exists>tr. trace (fst (transcribe_video_from_gcs (demo_world []) ''Analyze.'' folder_event
            scratch_start)) =
       (trace scratch_start @ received_logs @
        [Log INFO ''Downloading'',
         Download (bucket folder_event) (name folder_event)
           (local_video_path (resolve_paths (name folder_event)))]) @ tr"
    by (rule conjunct1)
  with p h1 h2 h3
  show ?thesis by (simp add: scratch_start_def received_logs_def folder_event_def)
qed

text \<open>
  C8 fails on the code for the event \<open>videos/\<close> (a video content type, the expected bucket,
  the credential set). The local video path is \<open>/tmp/\<close>, the scratch directory itself:
  it exists, and \<open>os.remove\<close> raises IsADirectoryError on it. The cleanup stops there:
  nothing is removed, the path still exists after the run, and the run ends with the
  exception of the cleanup. The removal of the local audio is never reached: an audio
  file at \<open>/tmp/.flac\<close> is still there after the run.
\<close>

theorem C8_cleanup_stops_at_directory:
  "local_video_path (resolve_paths (name folder_event)) = ''/tmp/''
   \<and> local_audio_path (resolve_paths (name folder_event)) = ''/tmp/.flac''
   \<and> cleanup (resolve_paths (name folder_event)) scratch_start
       = (scratch_start, Inl IsADirectoryError)
   \<and> snd (transcribe_video_from_gcs (demo_world []) ''Analyze.'' folder_event scratch_start)
       = Inl IsADirectoryError
   \<and> removals (trace (fst
        (transcribe_video_from_gcs (demo_world []) ''Analyze.'' folder_event scratch_start)))
       = []
   \<and> fs (fst (transcribe_video_from_gcs (demo_world []) ''Analyze.'' folder_event scratch_start))
        ''/tmp/'' = Some (Directory 4096)
   \<and> removals (trace (fst
        (transcribe_video_from_gcs (demo_world []) ''Analyze.'' folder_event leftover_start)))
       = []
   \<and> fs (fst (transcribe_video_from_gcs (demo_world []) ''Analyze.'' folder_event leftover_start))
        ''/tmp/.flac'' = Some (RegularFile 500)"
  by (simp add: world_eval folder_event_def scratch_start_def leftover_start_def step_eval
      path_eval)

section \<open>The claim about an empty recognition result\<close>

text \<open>
  C9. For the empty result sequence the transcript is the empty string and the
  reconstruction returns normally, so the run goes on: in a world where every collaborator
  succeeds the empty transcript is uploaded, the LLM is called and the run returns
  normally. The record \<open>no_results_log\<close> is written exactly when the sequence is empty.
  It has level WARNING, and the run also logs the empty transcript at level ERROR. A
  non-empty sequence of results without words logs at level INFO only, below both; the
  notice of the \<open>elif\<close> branch is never written, and its level is below ERROR.
\<close>

theorem C9_no_results:
  "build_transcript [] =
     ([no_results_log, Log INFO ''Transcription complete.'',
       Log INFO ''Length of final transcript_content'', empty_transcript_log], Inr [])
   \<and> reconstruct [] s =
       (s\<lparr>trace := trace s @ [no_results_log, Log INFO ''Transcription complete.'',
            Log INFO ''Length of final transcript_content'', empty_transcript_log]\<rparr>, Inr [])
   \<and> snd (transcribe_video_from_gcs (demo_world []) ''Analyze.'' clip_event start) = Inr ()
   \<and> effects (trace (fst (transcribe_video_from_gcs (demo_world []) ''Analyze.'' clip_event start)))
      = [Download ''in'' ''clip1.mp4'' ''/tmp/clip1.mp4'',
         Ffmpeg [''ffmpeg'', ''-i'', ''/tmp/clip1.mp4'', ''-vn'', ''-acodec'', ''flac'',
                 ''-ar'', ''16000'', ''-ac'', ''1'', ''/tmp/clip1.flac''],
         UploadFile ''out'' ''audio/clip1.flac'' ''/tmp/clip1.flac'',
         Recognize ''gs://out/audio/clip1.flac'',
         UploadString ''out'' ''transcripts/clip1.txt'' [],
         Generate ''key'' ''gemini-2.5-pro'' ''Analyze.\<newline>\<newline>Transcript:\<newline>'',
         UploadString ''out'' ''analysis/clip1_analysis.txt'' ''analysis'',
         Remove ''/tmp/clip1.mp4'', Remove ''/tmp/clip1.flac'']
   \<and> (no_results_log \<in> set (fst (build_transcript rs))) = (rs = [])
   \<and> severity no_results_log = level_no WARNING
   \<and> severity empty_transcript_log = level_no ERROR
   \<and> (rs \<noteq> [] \<and> (\<forall>r \<in> set rs. alternatives r \<noteq> [] \<and> top_words r = []) \<longrightarrow>
        (\<forall>e \<in> set (fst (build_transcript rs)). severity e < severity no_results_log))
   \<and> fallback_log \<notin> set (fst (build_transcript rs))
   \<and> severity fallback_log < severity empty_transcript_log"
proof -
  have 1: "reconstruct [] s =
       (s\<lparr>trace := trace s @ [no_results_log, Log INFO ''Transcription complete.'',
            Log INFO ''Length of final transcript_content'', empty_transcript_log]\<rparr>, Inr [])"
    by (simp add: reconstruct_def build_transcript_empty)
  have 2: "snd (transcribe_video_from_gcs (demo_world []) ''Analyze.'' clip_event start) = Inr ()"
    by (simp add: world_eval step_eval path_eval transcript_eval
        no_results_log_def empty_transcript_log_def)
  have 3: "severity no_results_log = level_no WARNING
      \<and> severity empty_transcript_log = level_no ERROR
      \<and> severity fallback_log < severity empty_transcript_log"
    by (simp add: no_results_log_def empty_transcript_log_def fallback_log_def)
  have 4: "rs \<noteq> [] \<and> (\<forall>r \<in> set rs. alternatives r \<noteq> [] \<and> top_words r = []) \<longrightarrow>
        (\<forall>e \<in> set (fst (build_transcript rs)). severity e < severity no_results_log)"
    using plain_results_logs [of rs] by (simp add: no_results_log_def)
  from build_transcript_empty 1 2 3 4 run_empty_results no_results_log_only_when_empty [of rs]
    fallback_log_never [of rs]
  show ?thesis by blast
qed

theorem C9_no_results_witness:
  "plain_results \<noteq> []
   \<and> list_all (\<lambda>r. alternatives r \<noteq> [] \<and> top_words r = []) plain_results
   \<and> list_all (\<lambda>e. severity e < severity no_results_log) (fst (build_transcript plain_results))
   \<and> no_results_log \<notin> set (fst (build_transcript plain_results))"
proof -
  have h1: "plain_results \<noteq> []" by (simp add: plain_results_def)
  have h2: "\<forall>r \<in> set plain_results. alternatives r \<noteq> [] \<and> top_words r = []"
    by (simp add: plain_results_def top_words_def)
  from C9_no_results [where rs = plain_results and s = start] h1 h2
  have "\<forall>e \<in> set (fst (build_transcript plain_results)). severity e < severity no_results_log"
    and "no_results_log \<notin> set (fst (build_transcript plain_results))"
    by blast+
  with h1 h2 show ?thesis by (simp add: list_all_iff)
qed

end
